theory Spec2Isabelle
  imports Main "HOL-Library.Sublist"
begin

section \<open>Conversation data model of \<open>computer_use_demo/loop.py\<close>\<close>

text \<open>
  The conversation is a Python list of dicts. A message has a \<open>role\<close> and a
  \<open>content\<close> that is either a string or a list of content blocks; the messages the
  Nebius branch of the loop appends carry \<open>tool_call_id\<close> and \<open>name\<close> as well.
  A content block is a dict with a \<open>type\<close> key; the loop may add a \<open>cache_control\<close> key
  to it. The JSON object of a tool call's input is kept abstract (type \<open>'j\<close>), with
  \<open>json.dumps\<close> and \<open>json.loads\<close> taken as parameters.

  Dicts are modelled as values: two blocks of a conversation are never the same Python
  object (the loop builds a fresh dict for every block it appends).
\<close>

datatype role = User | Assistant | Tool | System

text \<open>An item of the \<open>content\<close> list of a \<open>tool_result\<close> block: \<open>RImage media_type data\<close>.\<close>

datatype result_item = RText string | RImage string string | ROther string

datatype tr_content = ContentAbsent | ContentStr string | ContentList "result_item list"

text \<open>
  \<open>Image media_type data\<close>, \<open>ToolUse id name input\<close>,
  \<open>ToolResult tool_use_id content is_error\<close>, \<open>ImageUrl url\<close>; \<open>OtherBlock ty\<close> is a
  block of any other type \<open>ty\<close> (thinking blocks among them).
\<close>

datatype 'j block_body =
    Text string
  | Image string string
  | ToolUse string string 'j
  | ToolResult string tr_content bool
  | ImageUrl string
  | OtherBlock string

record 'j block =
  body :: "'j block_body"
  cache_control :: bool

datatype 'j content = Str string | Blocks "'j block list"

record 'j message =
  role :: role
  content :: "'j content"
  tool_call_id :: "string option"
  name :: "string option"

definition plain :: "'j block_body \<Rightarrow> 'j block" where
  "plain b = \<lparr>body = b, cache_control = False\<rparr>"

definition msg :: "role \<Rightarrow> 'j content \<Rightarrow> 'j message" where
  "msg r c = \<lparr>role = r, content = c, tool_call_id = None, name = None\<rparr>"

subsection \<open>OpenAI wire messages\<close>

datatype part = PText string | PImageUrl string

datatype wire_content = WStr string | WParts "part list"

text \<open>An entry of \<open>tool_calls\<close>: \<open>id\<close>, \<open>function.name\<close>, \<open>function.arguments\<close>.\<close>

record wire_tool_call =
  wtc_id :: string
  wtc_name :: string
  wtc_arguments :: string

text \<open>A key that the dict does not have is \<open>None\<close>.\<close>

record wire_message =
  w_role :: role
  w_content :: "wire_content option"
  w_tool_calls :: "wire_tool_call list option"
  w_tool_call_id :: "string option"

definition data_url :: "string \<Rightarrow> string \<Rightarrow> string" where
  "data_url media_type data = ''data:'' @ media_type @ '';base64,'' @ data"

definition image_message :: "string \<Rightarrow> wire_message" where
  "image_message url =
     \<lparr>w_role = User, w_content = Some (WParts [PImageUrl url]),
      w_tool_calls = None, w_tool_call_id = None\<rparr>"

definition tool_message :: "string \<Rightarrow> string \<Rightarrow> wire_message" where
  "tool_message tid text =
     \<lparr>w_role = Tool, w_content = Some (WStr text),
      w_tool_calls = None, w_tool_call_id = Some tid\<rparr>"

section \<open>\<open>_convert_anthropic_messages_to_openai\<close>\<close>

text \<open>
  The assistant branch: one pass over the blocks collecting \<open>content_text\<close> and
  \<open>tool_calls\<close>.
\<close>

fun assistant_block ::
  "('j \<Rightarrow> string) \<Rightarrow> string \<times> wire_tool_call list \<Rightarrow> 'j block \<Rightarrow> string \<times> wire_tool_call list"
where
  "assistant_block dumps (content_text, tool_calls) b =
     (case body b of
        Text t \<Rightarrow> (content_text @ t, tool_calls)
      | ToolUse i n inp \<Rightarrow>
          (content_text,
           tool_calls @ [\<lparr>wtc_id = i, wtc_name = n, wtc_arguments = dumps inp\<rparr>])
      | _ \<Rightarrow> (content_text, tool_calls))"

definition assistant_message :: "('j \<Rightarrow> string) \<Rightarrow> 'j block list \<Rightarrow> wire_message" where
  "assistant_message dumps bs =
     (let (content_text, tool_calls) = foldl (assistant_block dumps) ([], []) bs
      in \<lparr>w_role = Assistant,
          w_content = (if content_text \<noteq> [] then Some (WStr content_text) else None),
          w_tool_calls = (if tool_calls \<noteq> [] then Some tool_calls else None),
          w_tool_call_id = None\<rparr>)"

text \<open>
  The user branch. The state of the pass over the blocks is \<open>openai_messages\<close> (the
  output list, which the pass appends image messages to), \<open>content_parts\<close> and
  \<open>tool_results\<close>. The inner pass over a tool result's content list has the state
  \<open>openai_messages\<close> and \<open>tool_result_content\<close> (\<open>has_image\<close> is written and never read).
\<close>

fun result_item_step ::
  "wire_message list \<times> string \<Rightarrow> result_item \<Rightarrow> wire_message list \<times> string"
where
  "result_item_step (openai_messages, tool_result_content) (RText t) =
     (openai_messages, tool_result_content @ t)"
| "result_item_step (openai_messages, tool_result_content) (RImage mt d) =
     (openai_messages @ [image_message (data_url mt d)], tool_result_content)"
| "result_item_step (openai_messages, tool_result_content) (ROther ty) =
     (openai_messages, tool_result_content)"

fun tool_result_step ::
  "wire_message list \<Rightarrow> tr_content \<Rightarrow> wire_message list \<times> string"
where
  "tool_result_step openai_messages (ContentList items) =
     foldl result_item_step (openai_messages, []) items"
| "tool_result_step openai_messages (ContentStr s) = (openai_messages, s)"
| "tool_result_step openai_messages ContentAbsent = (openai_messages, [])"

fun user_block ::
  "wire_message list \<times> part list \<times> wire_message list \<Rightarrow> 'j block
     \<Rightarrow> wire_message list \<times> part list \<times> wire_message list"
where
  "user_block (openai_messages, content_parts, tool_results) b =
     (case body b of
        Text t \<Rightarrow> (openai_messages, content_parts @ [PText t], tool_results)
      | Image mt d \<Rightarrow>
          (openai_messages, content_parts @ [PImageUrl (data_url mt d)], tool_results)
      | ToolResult tid c e \<Rightarrow>
          (let (openai_messages', tool_result_content) = tool_result_step openai_messages c
           in (openai_messages', content_parts,
               tool_results @ [tool_message tid tool_result_content]))
      | _ \<Rightarrow> (openai_messages, content_parts, tool_results))"

text \<open>
  \<open>content_parts if len(content_parts) > 1 else content_parts[0].get("text", "")\<close>
\<close>

fun parts_content :: "part list \<Rightarrow> wire_content" where
  "parts_content [PText t] = WStr t"
| "parts_content [PImageUrl u] = WStr []"
| "parts_content ps = WParts ps"

definition user_messages :: "wire_message list \<Rightarrow> 'j block list \<Rightarrow> wire_message list" where
  "user_messages openai_messages bs =
     (let (openai_messages', content_parts, tool_results) =
            foldl user_block (openai_messages, [], []) bs;
          openai_messages'' = openai_messages' @ tool_results
      in if content_parts \<noteq> []
         then openai_messages'' @
                [\<lparr>w_role = User, w_content = Some (parts_content content_parts),
                  w_tool_calls = None, w_tool_call_id = None\<rparr>]
         else openai_messages'')"

text \<open>One round of the loop over the messages.\<close>

definition convert_message ::
  "('j \<Rightarrow> string) \<Rightarrow> wire_message list \<Rightarrow> 'j message \<Rightarrow> wire_message list"
where
  "convert_message dumps openai_messages m =
     (case content m of
        Str s \<Rightarrow>
          openai_messages @
            [\<lparr>w_role = role m, w_content = Some (WStr s),
              w_tool_calls = None, w_tool_call_id = None\<rparr>]
      | Blocks bs \<Rightarrow>
          if role m = Assistant then openai_messages @ [assistant_message dumps bs]
          else if role m = User then user_messages openai_messages bs
          else openai_messages)"

definition convert_anthropic_messages_to_openai ::
  "('j \<Rightarrow> string) \<Rightarrow> 'j message list \<Rightarrow> wire_message list"
where
  "convert_anthropic_messages_to_openai dumps messages =
     foldl (convert_message dumps) [] messages"

section \<open>Tool results\<close>

text \<open>
  The class \<open>ToolResult\<close> is declared in \<open>computer_use_demo/tools\<close>; the record has
  the four attributes that \<open>loop.py\<close> reads, each a string or \<open>None\<close> (\<open>output'\<close> is
  the attribute \<open>output\<close>). A test
  \<open>if result.error:\<close> holds for a string that is not empty.
\<close>

record tool_result =
  output' :: "string option"
  error :: "string option"
  base64_image :: "string option"
  system :: "string option"

fun truthy :: "string option \<Rightarrow> bool" where
  "truthy None = False"
| "truthy (Some s) = (s \<noteq> [])"

definition maybe_prepend_system_tool_result :: "tool_result \<Rightarrow> string \<Rightarrow> string" where
  "maybe_prepend_system_tool_result result result_text =
     (if truthy (system result)
      then ''<system>'' @ the (system result) @ ''</system>'' @ [CHR 0x0A] @ result_text
      else result_text)"

definition make_api_tool_result :: "tool_result \<Rightarrow> string \<Rightarrow> 'j block" where
  "make_api_tool_result result tool_use_id =
     (if truthy (error result)
      then plain (ToolResult tool_use_id
             (ContentStr (maybe_prepend_system_tool_result result (the (error result)))) True)
      else plain (ToolResult tool_use_id
             (ContentList
                ((if truthy (output' result)
                  then [RText (maybe_prepend_system_tool_result result (the (output' result)))]
                  else []) @
                 (if truthy (base64_image result)
                  then [RImage ''image/png'' (the (base64_image result))]
                  else [])))
             False))"

definition make_nebius_tool_result ::
  "tool_result \<Rightarrow> string \<Rightarrow> string \<Rightarrow> 'j message list"
where
  "make_nebius_tool_result result tid tool_name =
     (let tool_content =
            (if truthy (error result)
             then maybe_prepend_system_tool_result result (the (error result))
             else if truthy (output' result)
             then maybe_prepend_system_tool_result result (the (output' result))
             else [])
      in [\<lparr>role = Tool, content = Str tool_content,
           tool_call_id = Some tid, name = Some tool_name\<rparr>] @
         (if truthy (base64_image result)
          then [msg User
                  (Blocks [plain (ImageUrl (''data:image/png;base64,'' @ the (base64_image result)))])]
          else []))"

section \<open>Responses\<close>

datatype py_error = IndexError | ZeroDivisionError | JSONDecodeError string | ToolRunError string

record openai_tool_call =
  call_id :: string
  function_name :: string
  function_arguments :: string

record choice_message =
  c_content :: "string option"
  c_tool_calls :: "openai_tool_call list option"

record openai_response =
  choices :: "choice_message list"

text \<open>\<open>json.loads\<close> raises on a string that is not JSON: \<open>loads s = None\<close>.\<close>

fun tool_use_blocks ::
  "(string \<Rightarrow> 'j option) \<Rightarrow> 'j block list \<Rightarrow> openai_tool_call list \<Rightarrow> py_error + 'j block list"
where
  "tool_use_blocks loads result [] = Inr result"
| "tool_use_blocks loads result (tc # tcs) =
     (case loads (function_arguments tc) of
        None \<Rightarrow> Inl (JSONDecodeError (function_arguments tc))
      | Some inp \<Rightarrow>
          tool_use_blocks loads
            (result @ [plain (ToolUse (call_id tc) (function_name tc) inp)]) tcs)"

definition convert_openai_response_to_anthropic ::
  "(string \<Rightarrow> 'j option) \<Rightarrow> openai_response \<Rightarrow> py_error + 'j block list"
where
  "convert_openai_response_to_anthropic loads openai_response =
     (case choices openai_response of
        [] \<Rightarrow> Inl IndexError
      | choice # _ \<Rightarrow>
          (let result =
                 (if truthy (c_content choice) then [plain (Text (the (c_content choice)))]
                  else [])
           in case c_tool_calls choice of
                None \<Rightarrow> Inr result
              | Some tcs \<Rightarrow> tool_use_blocks loads result tcs))"

text \<open>
  A block of a \<open>BetaMessage\<close>: a \<open>BetaTextBlock\<close>, or a block of another class, given by
  its \<open>model_dump()\<close>. In \<open>_response_to_params\<close> the branch for a \<open>BetaTextBlock\<close> of type
  \<open>thinking\<close> is never taken (the type of a \<open>BetaTextBlock\<close> is \<open>text\<close>), so a text block
  with an empty text is left out.
\<close>

datatype 'j beta_block = BetaTextBlock string | BetaBlock "'j block_body"

fun response_block :: "'j beta_block \<Rightarrow> 'j block list" where
  "response_block (BetaTextBlock t) = (if t \<noteq> [] then [plain (Text t)] else [])"
| "response_block (BetaBlock b) = [plain b]"

definition response_to_params :: "'j beta_block list \<Rightarrow> 'j block list" where
  "response_to_params response = concat (map response_block response)"

section \<open>History policies\<close>

subsection \<open>\<open>_maybe_filter_to_n_most_recent_images\<close>\<close>

fun is_image :: "result_item \<Rightarrow> bool" where
  "is_image (RImage mt d) = True"
| "is_image _ = False"

text \<open>
  \<open>tool_result_blocks\<close>: the \<open>tool_result\<close> blocks of the messages whose content is a
  list, in the order of the conversation, here by their \<open>content\<close>.
\<close>

fun tool_result_of :: "'j block \<Rightarrow> tr_content list" where
  "tool_result_of b = (case body b of ToolResult tid c e \<Rightarrow> [c] | _ \<Rightarrow> [])"

fun message_blocks :: "'j message \<Rightarrow> 'j block list" where
  "message_blocks m = (case content m of Blocks bs \<Rightarrow> bs | Str s \<Rightarrow> [])"

definition tool_result_blocks :: "'j message list \<Rightarrow> tr_content list" where
  "tool_result_blocks messages =
     concat (map tool_result_of (concat (map message_blocks messages)))"

text \<open>
  The items \<open>tool_result.get("content", [])\<close> iterates over: none of the characters of a
  string content is a dict.
\<close>

fun content_items :: "tr_content \<Rightarrow> result_item list" where
  "content_items (ContentList items) = items"
| "content_items _ = []"

definition total_images :: "'j message list \<Rightarrow> int" where
  "total_images messages =
     int (length (filter is_image (concat (map content_items (tool_result_blocks messages)))))"

text \<open>
  The removal pass, with the counter \<open>images_to_remove\<close> carried through every content
  list; the result is the counter and the new list.
\<close>

fun filter_items :: "int \<Rightarrow> result_item list \<Rightarrow> int \<times> result_item list" where
  "filter_items images_to_remove [] = (images_to_remove, [])"
| "filter_items images_to_remove (c # cs) =
     (if is_image c \<and> images_to_remove > 0 then filter_items (images_to_remove - 1) cs
      else (let (n, new_content) = filter_items images_to_remove cs
            in (n, c # new_content)))"

fun filter_block :: "int \<Rightarrow> 'j block \<Rightarrow> int \<times> 'j block" where
  "filter_block images_to_remove b =
     (case body b of
        ToolResult tid (ContentList items) e \<Rightarrow>
          (let (n, new_content) = filter_items images_to_remove items
           in (n, b\<lparr>body := ToolResult tid (ContentList new_content) e\<rparr>))
      | _ \<Rightarrow> (images_to_remove, b))"

fun filter_blocks :: "int \<Rightarrow> 'j block list \<Rightarrow> int \<times> 'j block list" where
  "filter_blocks images_to_remove [] = (images_to_remove, [])"
| "filter_blocks images_to_remove (b # bs) =
     (let (n, b') = filter_block images_to_remove b;
          (n', bs') = filter_blocks n bs
      in (n', b' # bs'))"

fun filter_messages :: "int \<Rightarrow> 'j message list \<Rightarrow> int \<times> 'j message list" where
  "filter_messages images_to_remove [] = (images_to_remove, [])"
| "filter_messages images_to_remove (m # ms) =
     (case content m of
        Blocks bs \<Rightarrow>
          (let (n, bs') = filter_blocks images_to_remove bs;
               (n', ms') = filter_messages n ms
           in (n', m\<lparr>content := Blocks bs'\<rparr> # ms'))
      | Str s \<Rightarrow>
          (let (n', ms') = filter_messages images_to_remove ms in (n', m # ms')))"

text \<open>
  The function changes the conversation in place; the model returns the new
  conversation. \<open>%\<close> raises on a zero \<open>min_removal_threshold\<close>, and on \<open>int\<close> it is
  HOL's \<open>mod\<close> (both take the sign of the divisor).
\<close>

definition maybe_filter_to_n_most_recent_images ::
  "'j message list \<Rightarrow> int option \<Rightarrow> int \<Rightarrow> py_error + 'j message list"
where
  "maybe_filter_to_n_most_recent_images messages images_to_keep min_removal_threshold =
     (case images_to_keep of
        None \<Rightarrow> Inr messages
      | Some keep \<Rightarrow>
          if min_removal_threshold = 0 then Inl ZeroDivisionError
          else (let images_to_remove = total_images messages - keep;
                    images_to_remove' =
                      images_to_remove - images_to_remove mod min_removal_threshold
                in Inr (snd (filter_messages images_to_remove' messages))))"

subsection \<open>\<open>_inject_prompt_caching\<close>\<close>

text \<open>\<open>content[-1]\<close> raises \<open>IndexError\<close> on an empty list.\<close>

fun set_last_cache_control :: "bool \<Rightarrow> 'j block list \<Rightarrow> py_error + 'j block list" where
  "set_last_cache_control v [] = Inl IndexError"
| "set_last_cache_control v bs = Inr (butlast bs @ [(last bs)\<lparr>cache_control := v\<rparr>])"

text \<open>The pass over \<open>reversed(messages)\<close>, newest message first.\<close>

fun inject_reversed :: "nat \<Rightarrow> 'j message list \<Rightarrow> py_error + 'j message list" where
  "inject_reversed breakpoints_remaining [] = Inr []"
| "inject_reversed breakpoints_remaining (m # ms) =
     (case content m of
        Blocks bs \<Rightarrow>
          if role m = User then
            (if breakpoints_remaining \<noteq> 0 then
               (case set_last_cache_control True bs of
                  Inl e \<Rightarrow> Inl e
                | Inr bs' \<Rightarrow>
                    (case inject_reversed (breakpoints_remaining - 1) ms of
                       Inl e \<Rightarrow> Inl e
                     | Inr ms' \<Rightarrow> Inr (m\<lparr>content := Blocks bs'\<rparr> # ms')))
             else
               (case set_last_cache_control False bs of
                  Inl e \<Rightarrow> Inl e
                | Inr bs' \<Rightarrow> Inr (m\<lparr>content := Blocks bs'\<rparr> # ms)))
          else
            (case inject_reversed breakpoints_remaining ms of
               Inl e \<Rightarrow> Inl e
             | Inr ms' \<Rightarrow> Inr (m # ms'))
      | Str s \<Rightarrow>
          (case inject_reversed breakpoints_remaining ms of
             Inl e \<Rightarrow> Inl e
           | Inr ms' \<Rightarrow> Inr (m # ms')))"

definition inject_prompt_caching :: "'j message list \<Rightarrow> py_error + 'j message list" where
  "inject_prompt_caching messages =
     (case inject_reversed 3 (rev messages) of
        Inl e \<Rightarrow> Inl e
      | Inr ms \<Rightarrow> Inr (rev ms))"

section \<open>\<open>sampling_loop\<close>\<close>

datatype APIProvider = ANTHROPIC | BEDROCK | VERTEX | NEBIUS

text \<open>
  What the \<open>try\<close> around the API call catches: the first handler takes
  \<open>APIStatusError\<close> and \<open>APIResponseValidationError\<close>, the second any other
  \<open>APIError\<close>, the third any other exception (the errors of the OpenAI client).
\<close>

datatype api_error = APIStatusError | APIResponseValidationError | APIError | OtherException

datatype 'j raw_response = AnthropicResponse "'j beta_block list" | OpenAIResponse openai_response

datatype 'j request = AnthropicRequest "'j message list" | OpenAIRequest "wire_message list"

text \<open>
  The world outside the loop, with a state \<open>'w\<close> of its own that every call may change:
  the two clients and the tools. \<open>anthropic_create\<close> is
  \<open>client.beta.messages.with_raw_response.create\<close> and \<open>openai_create\<close> is
  \<open>client.chat.completions.create\<close>, each called with the arguments that are the same at
  every iteration of a run (model, tools, max_tokens, betas, thinking) and the messages.
  \<open>tool_collection_run\<close> is \<open>tool_collection.run\<close>, of \<open>computer_use_demo/tools\<close>, which is
  not among the sources: called with the name and the input of a tool call, it returns
  a \<open>ToolResult\<close> or raises an exception, here with its message.
\<close>

record ('j, 'w) env =
  json_dumps :: "'j \<Rightarrow> string"
  json_loads :: "string \<Rightarrow> 'j option"
  anthropic_create :: "'w \<Rightarrow> 'j message list \<Rightarrow> (api_error + 'j beta_block list) \<times> 'w"
  openai_create :: "'w \<Rightarrow> wire_message list \<Rightarrow> (api_error + openai_response) \<times> 'w"
  tool_collection_run :: "'w \<Rightarrow> string \<Rightarrow> 'j \<Rightarrow> (string + tool_result) \<times> 'w"

text \<open>
  What the loop does that its caller can see, in order: the requests it sends and the
  callbacks it invokes (\<open>api_response_callback\<close> with the exception or \<open>None\<close>,
  \<open>output_callback\<close>, \<open>tool_output_callback\<close>). The callbacks are taken not to raise.
\<close>

datatype 'j event =
    BackendCall "'j request"
  | ApiResponseCallback "api_error option"
  | OutputCallback "'j block"
  | ToolOutputCallback tool_result string

text \<open>
  The head of the loop body: prompt caching for \<open>ANTHROPIC\<close>, which sets
  \<open>only_n_most_recent_images\<close> to 0, then the image filter when that variable is a
  number other than 0. The result is the conversation and the variable.
\<close>

fun int_truthy :: "int option \<Rightarrow> bool" where
  "int_truthy None = False"
| "int_truthy (Some n) = (n \<noteq> 0)"

definition history_policies ::
  "APIProvider \<Rightarrow> int option \<Rightarrow> 'j message list \<Rightarrow> py_error + 'j message list \<times> int option"
where
  "history_policies provider only_n_most_recent_images messages =
     (let image_truncation_threshold =
            (if int_truthy only_n_most_recent_images then the only_n_most_recent_images else 0);
          enable_prompt_caching = (provider = ANTHROPIC)
      in case (if enable_prompt_caching
               then (case inject_prompt_caching messages of
                       Inl e \<Rightarrow> Inl e
                     | Inr ms \<Rightarrow> Inr (ms, Some 0))
               else Inr (messages, only_n_most_recent_images)) of
           Inl e \<Rightarrow> Inl e
         | Inr (ms, only_n) \<Rightarrow>
             if int_truthy only_n
             then (case maybe_filter_to_n_most_recent_images ms only_n
                          image_truncation_threshold of
                     Inl e \<Rightarrow> Inl e
                   | Inr ms' \<Rightarrow> Inr (ms', only_n))
             else Inr (ms, only_n))"

text \<open>The \<open>try\<close> block: the request that is sent, and the response or the exception.\<close>

definition system_message :: "string \<Rightarrow> wire_message" where
  "system_message system_content =
     \<lparr>w_role = System, w_content = Some (WStr system_content),
      w_tool_calls = None, w_tool_call_id = None\<rparr>"

definition build_request ::
  "('j, 'w) env \<Rightarrow> APIProvider \<Rightarrow> string \<Rightarrow> 'j message list \<Rightarrow> 'j request"
where
  "build_request e provider system_content messages =
     (if provider = NEBIUS
      then OpenAIRequest
             (system_message system_content #
              convert_anthropic_messages_to_openai (json_dumps e) messages)
      else AnthropicRequest messages)"

fun create :: "('j, 'w) env \<Rightarrow> 'w \<Rightarrow> 'j request \<Rightarrow> (api_error + 'j raw_response) \<times> 'w" where
  "create e w (OpenAIRequest openai_messages) =
     (case openai_create e w openai_messages of
        (Inl err, w') \<Rightarrow> (Inl err, w')
      | (Inr response, w') \<Rightarrow> (Inr (OpenAIResponse response), w'))"
| "create e w (AnthropicRequest messages) =
     (case anthropic_create e w messages of
        (Inl err, w') \<Rightarrow> (Inl err, w')
      | (Inr response, w') \<Rightarrow> (Inr (AnthropicResponse response), w'))"

fun response_params :: "('j, 'w) env \<Rightarrow> 'j raw_response \<Rightarrow> py_error + 'j block list" where
  "response_params e (OpenAIResponse response) =
     convert_openai_response_to_anthropic (json_loads e) response"
| "response_params e (AnthropicResponse response) = Inr (response_to_params response)"

text \<open>
  The pass over \<open>response_params\<close>, with the state \<open>tool_result_content\<close>,
  \<open>nebius_tool_messages\<close>, the events so far and the world. The call of
  \<open>tool_collection.run\<close> stands in no \<open>try\<close>: when it raises, the exception leaves the
  pass and the loop. The first component of the state is the message of that exception,
  once it has been raised; the blocks after it are not read.
\<close>

fun dispatch_block ::
  "('j, 'w) env \<Rightarrow> APIProvider
     \<Rightarrow> string option \<times> 'j block list \<times> 'j message list \<times> 'j event list \<times> 'w \<Rightarrow> 'j block
     \<Rightarrow> string option \<times> 'j block list \<times> 'j message list \<times> 'j event list \<times> 'w"
where
  "dispatch_block e provider (raised, tool_result_content, nebius_tool_messages, trace, w)
     content_block =
     (if raised \<noteq> None
      then (raised, tool_result_content, nebius_tool_messages, trace, w)
      else case body content_block of
        ToolUse tid tool_name tool_input \<Rightarrow>
          (case tool_collection_run e w tool_name tool_input of
             (Inl message, w') \<Rightarrow>
               (Some message, tool_result_content, nebius_tool_messages,
                trace @ [OutputCallback content_block], w')
           | (Inr result, w') \<Rightarrow>
               (let trace' = trace @ [OutputCallback content_block,
                                      ToolOutputCallback result tid]
                in if provider = NEBIUS
                   then (None, tool_result_content,
                         nebius_tool_messages @ make_nebius_tool_result result tid tool_name,
                         trace', w')
                   else (None, tool_result_content @ [make_api_tool_result result tid],
                         nebius_tool_messages, trace', w')))
      | _ \<Rightarrow> (None, tool_result_content, nebius_tool_messages,
              trace @ [OutputCallback content_block], w))"

datatype 'j step = Continue "'j message list" | Return "'j message list" | Raise py_error

text \<open>
  One round of \<open>while True\<close>. \<open>Raise\<close> is an exception that leaves \<open>sampling_loop\<close>: one
  of a history policy, of the translation of the response or of a tool call, which are
  all outside the \<open>try\<close>.
\<close>

definition iteration ::
  "('j, 'w) env \<Rightarrow> APIProvider \<Rightarrow> string \<Rightarrow> int option \<Rightarrow> 'j message list
     \<Rightarrow> 'j event list \<Rightarrow> 'w \<Rightarrow> 'j step \<times> int option \<times> 'j event list \<times> 'w"
where
  "iteration e provider system_content only_n_most_recent_images messages trace w =
     (case history_policies provider only_n_most_recent_images messages of
        Inl err \<Rightarrow> (Raise err, only_n_most_recent_images, trace, w)
      | Inr (messages1, only_n) \<Rightarrow>
          (let request = build_request e provider system_content messages1
           in case create e w request of
                (Inl err, w1) \<Rightarrow>
                  (Return messages1, only_n,
                   trace @ [BackendCall request, ApiResponseCallback (Some err)], w1)
              | (Inr raw_response, w1) \<Rightarrow>
                  (let trace1 = trace @ [BackendCall request, ApiResponseCallback None]
                   in case response_params e raw_response of
                        Inl err \<Rightarrow> (Raise err, only_n, trace1, w1)
                      | Inr params \<Rightarrow>
                          (let messages2 = messages1 @ [msg Assistant (Blocks params)];
                               (raised, tool_result_content, nebius_tool_messages, trace2, w2) =
                                 foldl (dispatch_block e provider) (None, [], [], trace1, w1)
                                   params
                           in case raised of
                                Some message \<Rightarrow> (Raise (ToolRunError message), only_n, trace2, w2)
                              | None \<Rightarrow>
                                  if provider = NEBIUS
                                  then (if nebius_tool_messages \<noteq> []
                                        then (Continue (messages2 @ nebius_tool_messages),
                                              only_n, trace2, w2)
                                        else (Return messages2, only_n, trace2, w2))
                                  else (if tool_result_content = []
                                        then (Return messages2, only_n, trace2, w2)
                                        else (Continue
                                                (messages2 @
                                                 [msg User (Blocks tool_result_content)]),
                                              only_n, trace2, w2))))))"

text \<open>
  The loop, with fuel: \<open>None\<close> when the fuel runs out before the loop returns or raises.
\<close>

fun sampling_loop ::
  "nat \<Rightarrow> ('j, 'w) env \<Rightarrow> APIProvider \<Rightarrow> string \<Rightarrow> int option \<Rightarrow> 'j message list
     \<Rightarrow> 'j event list \<Rightarrow> 'w \<Rightarrow> ('j step \<times> 'j event list \<times> 'w) option"
where
  "sampling_loop 0 e provider system_content only_n messages trace w = None"
| "sampling_loop (Suc fuel) e provider system_content only_n messages trace w =
     (case iteration e provider system_content only_n messages trace w of
        (Continue messages', only_n', trace', w') \<Rightarrow>
          sampling_loop fuel e provider system_content only_n' messages' trace' w'
      | (outcome, only_n', trace', w') \<Rightarrow> Some (outcome, trace', w'))"

section \<open>Vocabulary of the properties\<close>

text \<open>
  What one item, one content and one block add to the three lists of the user branch
  of the translation.
\<close>

fun item_images :: "result_item \<Rightarrow> wire_message list" where
  "item_images (RImage mt d) = [image_message (data_url mt d)]"
| "item_images _ = []"

fun item_text :: "result_item \<Rightarrow> string" where
  "item_text (RText t) = t"
| "item_text _ = []"

fun content_images :: "tr_content \<Rightarrow> wire_message list" where
  "content_images (ContentList items) = concat (map item_images items)"
| "content_images _ = []"

fun content_text :: "tr_content \<Rightarrow> string" where
  "content_text (ContentList items) = concat (map item_text items)"
| "content_text (ContentStr s) = s"
| "content_text ContentAbsent = []"

definition block_images :: "'j block \<Rightarrow> wire_message list" where
  "block_images b = fst (user_block ([], [], []) b)"

definition block_parts :: "'j block \<Rightarrow> part list" where
  "block_parts b = fst (snd (user_block ([], [], []) b))"

definition block_tools :: "'j block \<Rightarrow> wire_message list" where
  "block_tools b = snd (snd (user_block ([], [], []) b))"

text \<open>
  The images of the tool results of a conversation, oldest first (the items that
  \<open>total_images\<close> counts), and a conversation without them: every image taken out of
  every content list of a tool result, and nothing else changed.
\<close>

definition block_items :: "'j block \<Rightarrow> result_item list" where
  "block_items b = concat (map content_items (tool_result_of b))"

definition images_in :: "'j block list \<Rightarrow> result_item list" where
  "images_in bs = filter is_image (concat (map block_items bs))"

definition images_of :: "'j message list \<Rightarrow> result_item list" where
  "images_of messages =
     filter is_image (concat (map content_items (tool_result_blocks messages)))"

fun erase_block :: "'j block \<Rightarrow> 'j block" where
  "erase_block b =
     (case body b of
        ToolResult tid (ContentList items) e \<Rightarrow>
          b\<lparr>body := ToolResult tid (ContentList (filter (\<lambda>c. \<not> is_image c) items)) e\<rparr>
      | _ \<Rightarrow> b)"

fun erase_images :: "'j message \<Rightarrow> 'j message" where
  "erase_images m =
     (case content m of
        Blocks bs \<Rightarrow> m\<lparr>content := Blocks (map erase_block bs)\<rparr>
      | Str s \<Rightarrow> m)"

text \<open>A conversation with seven images in three tool results.\<close>

definition seven_images :: "unit message list" where
  "seven_images =
     [msg User (Blocks [plain (ToolResult ''a''
        (ContentList [RText ''x'', RImage ''image/png'' ''1'', RImage ''image/png'' ''2''])
        False)]),
      msg Assistant (Str ''next''),
      msg User (Blocks
        [plain (ToolResult ''b''
           (ContentList [RImage ''image/png'' ''3'', RImage ''image/png'' ''4'', RText ''y'',
                         RImage ''image/png'' ''5''])
           False),
         plain (ToolResult ''c''
           (ContentList [RImage ''image/png'' ''6'', RImage ''image/png'' ''7'']) False)])]"

text \<open>
  For the cache breakpoints: a user message with a list content (the messages the
  annotator looks at), the message with the flag of its last block set or cleared, and a
  message that carries a flag on some block. Then a conversation of five user turns.
\<close>

definition eligible :: "'j message \<Rightarrow> bool" where
  "eligible m = (role m = User \<and> (case content m of Blocks bs \<Rightarrow> True | Str s \<Rightarrow> False))"

definition mark :: "bool \<Rightarrow> 'j message \<Rightarrow> 'j message" where
  "mark v m =
     (case content m of
        Blocks bs \<Rightarrow> m\<lparr>content := Blocks (butlast bs @ [(last bs)\<lparr>cache_control := v\<rparr>])\<rparr>
      | Str s \<Rightarrow> m)"

definition has_marker :: "'j message \<Rightarrow> bool" where
  "has_marker m = list_ex cache_control (message_blocks m)"

definition user_text :: "string \<Rightarrow> unit message" where
  "user_text t = msg User (Blocks [plain (Text t)])"

definition five_turns :: "unit message list" where
  "five_turns =
     [user_text ''a'', msg Assistant (Str ''1''), user_text ''b'', msg Assistant (Str ''2''),
      user_text ''c'', user_text ''d'', msg Assistant (Str ''3''), user_text ''e'']"

text \<open>
  For the loop: a message with every \<open>cache_control\<close> flag cleared; the skeleton of a
  message, which is the message without its flags and without the images of its tool
  results; a block that is a tool call; and the pass over \<open>response_params\<close> from empty
  lists.
\<close>

fun clear_block :: "'j block \<Rightarrow> 'j block" where
  "clear_block b = b\<lparr>cache_control := False\<rparr>"

fun clear_flags :: "'j message \<Rightarrow> 'j message" where
  "clear_flags m =
     (case content m of
        Blocks bs \<Rightarrow> m\<lparr>content := Blocks (map clear_block bs)\<rparr>
      | Str s \<Rightarrow> m)"



definition dispatch ::
  "('j, 'w) env \<Rightarrow> APIProvider \<Rightarrow> 'w \<Rightarrow> 'j block list
     \<Rightarrow> string option \<times> 'j block list \<times> 'j message list \<times> 'j event list \<times> 'w"
where
  "dispatch e provider w params =
     foldl (dispatch_block e provider) (None, [], [], [], w) params"



text \<open>
  Two worlds to run the loop in. In the first the state counts the calls of the backend:
  call 0 answers with one call of the tool \<open>computer\<close>, every later call with the text
  \<open>done\<close>, and the tool returns or raises \<open>r\<close>. In the second every call of the backend
  raises.
\<close>

definition one_call_env :: "(string + tool_result) \<Rightarrow> (unit, nat) env" where
  "one_call_env r =
     \<lparr>json_dumps = (\<lambda>u. ''{}''),
      json_loads = (\<lambda>s. Some ()),
      anthropic_create = (\<lambda>w ms.
        (Inr (if w = 0 then [BetaBlock (ToolUse ''t1'' ''computer'' ())]
              else [BetaTextBlock ''done'']), Suc w)),
      openai_create = (\<lambda>w ms.
        (Inr \<lparr>choices =
               [if w = 0
                then \<lparr>c_content = None,
                      c_tool_calls = Some [\<lparr>call_id = ''t1'', function_name = ''computer'',
                                             function_arguments = ''{}''\<rparr>]\<rparr>
                else \<lparr>c_content = Some ''done'', c_tool_calls = None\<rparr>]\<rparr>, Suc w)),
      tool_collection_run = (\<lambda>w n i. (r, w))\<rparr>"

definition failing_env :: "(unit, nat) env" where
  "failing_env =
     \<lparr>json_dumps = (\<lambda>u. ''{}''),
      json_loads = (\<lambda>s. Some ()),
      anthropic_create = (\<lambda>w ms. (Inl APIStatusError, w)),
      openai_create = (\<lambda>w ms. (Inl OtherException, w)),
      tool_collection_run = (\<lambda>w n i. (Inl ''unused'', w))\<rparr>"

text \<open>
  The image URLs a conversation holds in the Anthropic shape (\<open>image\<close> blocks and the
  images of tool results), the ones a list of wire messages holds, and the ones of a
  request.
\<close>

fun item_urls :: "result_item \<Rightarrow> string list" where
  "item_urls (RImage mt d) = [data_url mt d]"
| "item_urls _ = []"

fun block_urls :: "'j block \<Rightarrow> string list" where
  "block_urls b =
     (case body b of
        Image mt d \<Rightarrow> [data_url mt d]
      | ToolResult tid (ContentList items) e \<Rightarrow> concat (map item_urls items)
      | _ \<Rightarrow> [])"

definition conversation_urls :: "'j message list \<Rightarrow> string list" where
  "conversation_urls messages = concat (map block_urls (concat (map message_blocks messages)))"

fun part_urls :: "part \<Rightarrow> string list" where
  "part_urls (PImageUrl u) = [u]"
| "part_urls (PText t) = []"

fun wire_message_urls :: "wire_message \<Rightarrow> string list" where
  "wire_message_urls m =
     (case w_content m of Some (WParts ps) \<Rightarrow> concat (map part_urls ps) | _ \<Rightarrow> [])"

definition wire_urls :: "wire_message list \<Rightarrow> string list" where
  "wire_urls ms = concat (map wire_message_urls ms)"

fun request_urls :: "'j request \<Rightarrow> string list" where
  "request_urls (OpenAIRequest ms) = wire_urls ms"
| "request_urls (AnthropicRequest ms) = conversation_urls ms"

text \<open>
  The requests among the events; the conversations that were sent to the Anthropic
  API, in order; the conversation a step returns. \<open>keeps ms ms'\<close>: up to \<open>cache_control\<close>
  flags, \<open>ms'\<close> is \<open>ms\<close> with messages appended, so no message and no image of \<open>ms\<close> was
  removed or altered.
\<close>

fun event_requests :: "'j event \<Rightarrow> 'j request list" where
  "event_requests (BackendCall r) = [r]"
| "event_requests _ = []"

definition requests :: "'j event list \<Rightarrow> 'j request list" where
  "requests trace = concat (map event_requests trace)"

fun event_conversation :: "'j event \<Rightarrow> 'j message list list" where
  "event_conversation (BackendCall (AnthropicRequest m)) = [m]"
| "event_conversation _ = []"

definition sent :: "'j event list \<Rightarrow> 'j message list list" where
  "sent trace = concat (map event_conversation trace)"

fun returned :: "'j step \<Rightarrow> 'j message list list" where
  "returned (Return m) = [m]"
| "returned _ = []"

definition keeps :: "'j message list \<Rightarrow> 'j message list \<Rightarrow> bool" where
  "keeps ms ms' = prefix (map clear_flags ms) (map clear_flags ms')"

text \<open>A conversation with two images in one tool result, and a tool result with an image.\<close>

definition two_images :: "unit message list" where
  "two_images =
     [msg User (Blocks [plain (ToolResult ''a''
        (ContentList [RImage ''image/png'' ''1'', RText ''x'', RImage ''image/png'' ''2''])
        False)])]"

definition screenshot :: tool_result where
  "screenshot = \<lparr>output' = None, error = None, base64_image = Some ''3'', system = None\<rparr>"

text \<open>
  A block that the user branch of the translation passes over: one whose type is none
  of \<open>text\<close>, \<open>image\<close> and \<open>tool_result\<close>.
\<close>

fun untranslated :: "'j block \<Rightarrow> bool" where
  "untranslated b =
     (case body b of
        Text t \<Rightarrow> False
      | Image mt d \<Rightarrow> False
      | ToolResult tid c e \<Rightarrow> False
      | _ \<Rightarrow> True)"

section \<open>The translation to OpenAI messages\<close>

lemma foldl_result_item_step:
  "foldl result_item_step (om, t) items =
     (om @ concat (map item_images items), t @ concat (map item_text items))"
proof (induction items arbitrary: om t)
  case Nil
  then show ?case by simp
next
  case (Cons x xs)
  then show ?case by (cases x) simp_all
qed

lemma tool_result_step_eq:
  "tool_result_step om c = (om @ content_images c, content_text c)"
  by (cases c) (simp_all add: foldl_result_item_step)

lemma user_block_append:
  "user_block (om, cp, tr) b = (om @ block_images b, cp @ block_parts b, tr @ block_tools b)"
  unfolding block_images_def block_parts_def block_tools_def
  by (cases "body b") (simp_all add: tool_result_step_eq)

lemma foldl_user_block:
  "foldl user_block (om, cp, tr) bs =
     (om @ concat (map block_images bs), cp @ concat (map block_parts bs),
      tr @ concat (map block_tools bs))"
  by (induction bs arbitrary: om cp tr) (simp_all add: user_block_append del: user_block.simps)

lemma user_messages_append: "user_messages om bs = om @ user_messages [] bs"
  by (simp add: user_messages_def foldl_user_block Let_def)

lemma user_messages_eq:
  "user_messages [] bs =
     concat (map block_images bs) @ concat (map block_tools bs) @
     (if concat (map block_parts bs) \<noteq> []
      then [\<lparr>w_role = User, w_content = Some (parts_content (concat (map block_parts bs))),
             w_tool_calls = None, w_tool_call_id = None\<rparr>]
      else [])"
  by (simp add: user_messages_def foldl_user_block Let_def)

lemma convert_message_append: "convert_message dumps om m = om @ convert_message dumps [] m"
  by (simp add: convert_message_def user_messages_append [of om] split: content.splits)

lemma foldl_convert_message:
  "foldl (convert_message dumps) om ms = om @ concat (map (convert_message dumps []) ms)"
proof (induction ms arbitrary: om)
  case Nil
  then show ?case by simp
next
  case (Cons m ms)
  show ?case using convert_message_append [of dumps om m] by (simp add: Cons.IH)
qed

lemma convert_concat:
  "convert_anthropic_messages_to_openai dumps ms = concat (map (convert_message dumps []) ms)"
  by (simp add: convert_anthropic_messages_to_openai_def foldl_convert_message)

lemma block_tools_ToolResult:
  "body b = ToolResult tid c e \<Longrightarrow> block_tools b = [tool_message tid (content_text c)]"
  by (simp add: block_tools_def tool_result_step_eq)

text \<open>
  The path of a fresh tool result, \<open>_make_nebius_tool_result\<close>: the tool message, then
  the user message with the image.
\<close>

lemma fresh_tool_result_order:
  "make_nebius_tool_result
     \<lparr>output' = Some ''ok'', error = None, base64_image = Some ''AAAA'', system = None\<rparr>
     ''t1'' ''computer'' =
   [\<lparr>role = Tool, content = Str ''ok'', tool_call_id = Some ''t1'', name = Some ''computer''\<rparr>,
    msg User (Blocks [plain (ImageUrl ''data:image/png;base64,AAAA'')])]"
  by (simp add: make_nebius_tool_result_def maybe_prepend_system_tool_result_def)

text \<open>
  C1. The claim: a tool result with an image becomes the tool message with the text and
  then a user message with the image, on both paths. On the path of the translation of
  the whole conversation the code appends the image message to the output while it still
  reads the block, and the tool messages of the user turn only after the last block: for
  the user message with one tool result \<open>t1\<close> of text \<open>ok\<close> and one image, the output is the
  image message first and the tool message second.
\<close>

theorem retranslated_image_precedes_tool_message:
  "convert_anthropic_messages_to_openai dumps
     [msg User (Blocks [plain (ToolResult ''t1''
        (ContentList [RText ''ok'', RImage ''image/png'' ''AAAA'']) False)])] =
   [image_message ''data:image/png;base64,AAAA'', tool_message ''t1'' ''ok'']"
  by (simp add: convert_anthropic_messages_to_openai_def convert_message_def msg_def plain_def
      user_messages_def data_url_def)

text \<open>
  C7, as amended. The translation has no check of the pairing of calls and results and
  no error \<open>DanglingToolResult\<close>: every \<open>tool_result\<close> block of a user message with a list
  content becomes a tool message with the block's \<open>tool_use_id\<close> and text, whatever the
  tool calls of the conversation are.
\<close>

theorem unpaired_tool_result_is_translated:
  assumes "m \<in> set messages" and "role m = User" and "content m = Blocks bs"
    and "b \<in> set bs" and "body b = ToolResult tid c e"
  shows "tool_message tid (content_text c)
           \<in> set (convert_anthropic_messages_to_openai dumps messages)"
proof -
  have "tool_message tid (content_text c) \<in> set (concat (map block_tools bs))"
    using assms(4,5) block_tools_ToolResult [of b tid c e]
    by (auto intro!: bexI [of _ b])
  then have "tool_message tid (content_text c) \<in> set (user_messages [] bs)"
    by (simp add: user_messages_eq)
  then have "tool_message tid (content_text c) \<in> set (convert_message dumps [] m)"
    using assms(2,3) by (simp add: convert_message_def)
  then show ?thesis
    using assms(1) by (auto simp: convert_concat)
qed

theorem unpaired_tool_result_is_translated_witness:
  "tool_message ''call_9'' ''done''
     \<in> set (convert_anthropic_messages_to_openai (json_dumps failing_env)
          [msg User (Blocks [plain (ToolResult ''call_9'' (ContentStr ''done'') False)])])"
  using unpaired_tool_result_is_translated
    [of "msg User (Blocks [plain (ToolResult ''call_9'' (ContentStr ''done'') False)])"
        "[msg User (Blocks [plain (ToolResult ''call_9'' (ContentStr ''done'') False)])]"
        "[plain (ToolResult ''call_9'' (ContentStr ''done'') False)]"
        "plain (ToolResult ''call_9'' (ContentStr ''done'') False)"
        "''call_9''" "ContentStr ''done''" False "json_dumps failing_env"]
  by (simp add: msg_def plain_def)

text \<open>
  The claim C7 fails on a conversation of one user message whose tool result \<open>call_9\<close>
  follows no tool call: the translation returns the tool message.
\<close>

theorem dangling_tool_result_counterexample:
  "convert_anthropic_messages_to_openai (json_dumps failing_env)
     [msg User (Blocks [plain (ToolResult ''call_9'' (ContentStr ''done'') False)])] =
   [tool_message ''call_9'' ''done'']"
  by (simp add: convert_anthropic_messages_to_openai_def convert_message_def msg_def plain_def
      user_messages_def)

section \<open>The translation of a response\<close>

text \<open>
  C6, as amended. There is no error \<open>MalformedResponse\<close>: for a response whose first
  choice has no text (\<open>None\<close> or the empty string) and no tool call (\<open>None\<close> or the empty
  list), \<open>_convert_openai_response_to_anthropic\<close> returns the empty list of blocks.
\<close>

theorem empty_response_gives_empty_content:
  assumes "choices r = c # cs" and "\<not> truthy (c_content c)"
    and "c_tool_calls c = None \<or> c_tool_calls c = Some []"
  shows "convert_openai_response_to_anthropic loads r = Inr []"
  using assms by (auto simp: convert_openai_response_to_anthropic_def)

theorem empty_response_gives_empty_content_witness:
  "convert_openai_response_to_anthropic (json_loads failing_env)
     \<lparr>choices = [\<lparr>c_content = None, c_tool_calls = None\<rparr>]\<rparr> = Inr []"
  using empty_response_gives_empty_content
    [of "\<lparr>choices = [\<lparr>c_content = None, c_tool_calls = None\<rparr>]\<rparr>"
        "\<lparr>c_content = None, c_tool_calls = None\<rparr>" "[]" "json_loads failing_env"]
  by simp

text \<open>
  The claim C6 fails on the response with the empty text and the empty list of tool
  calls: the translation returns a result, the empty list, and no error.
\<close>

theorem malformed_response_counterexample:
  "convert_openai_response_to_anthropic (json_loads failing_env)
     \<lparr>choices = [\<lparr>c_content = Some [], c_tool_calls = Some []\<rparr>]\<rparr> = Inr []"
  by (simp add: convert_openai_response_to_anthropic_def)

section \<open>The image filter\<close>

lemma filter_items_counter:
  "fst (filter_items n cs) = n - int (min (nat n) (length (filter is_image cs)))"
  by (induction cs arbitrary: n) (auto simp: split_beta)

lemma filter_items_images:
  "filter is_image (snd (filter_items n cs)) = drop (nat n) (filter is_image cs)"
proof (induction cs arbitrary: n)
  case Nil
  then show ?case by simp
next
  case (Cons c cs)
  show ?case
  proof (cases "is_image c \<and> n > 0")
    case True
    then have "nat n = Suc (nat (n - 1))" by linarith
    with True show ?thesis by (simp add: Cons.IH)
  next
    case False
    then show ?thesis by (auto simp: split_beta Cons.IH)
  qed
qed

lemma filter_items_others:
  "filter (\<lambda>c. \<not> is_image c) (snd (filter_items n cs)) = filter (\<lambda>c. \<not> is_image c) cs"
  by (induction cs arbitrary: n) (auto simp: split_beta)

lemma filter_block_counter:
  "fst (filter_block n b) = n - int (min (nat n) (length (filter is_image (block_items b))))"
  by (auto simp: block_items_def split_beta filter_items_counter
      split: block_body.splits tr_content.splits)

lemma filter_block_images:
  "filter is_image (block_items (snd (filter_block n b))) =
     drop (nat n) (filter is_image (block_items b))"
  by (auto simp: block_items_def split_beta filter_items_images
      split: block_body.splits tr_content.splits)

lemma filter_block_erase: "erase_block (snd (filter_block n b)) = erase_block b"
  by (auto simp: split_beta filter_items_others split: block_body.splits tr_content.splits)

lemma filter_blocks_counter:
  "fst (filter_blocks n bs) = n - int (min (nat n) (length (images_in bs)))"
proof (induction bs arbitrary: n)
  case Nil
  then show ?case by (simp add: images_in_def)
next
  case (Cons b bs)
  show ?case
    by (simp add: split_beta Cons.IH filter_block_counter images_in_def del: filter_block.simps)
qed

lemma filter_blocks_images:
  "images_in (snd (filter_blocks n bs)) = drop (nat n) (images_in bs)"
proof (induction bs arbitrary: n)
  case Nil
  then show ?case by (simp add: images_in_def)
next
  case (Cons b bs)
  have "nat (fst (filter_block n b)) = nat n - length (filter is_image (block_items b))"
    by (simp add: filter_block_counter del: filter_block.simps)
  then show ?case
    using Cons.IH [of "fst (filter_block n b)"] filter_block_images [of n b]
    by (simp add: split_beta images_in_def del: filter_block.simps)
qed

lemma filter_blocks_erase: "map erase_block (snd (filter_blocks n bs)) = map erase_block bs"
  by (induction bs arbitrary: n)
    (simp_all add: split_beta filter_block_erase del: filter_block.simps erase_block.simps)

lemma images_of_Nil: "images_of [] = []"
  by (simp add: images_of_def tool_result_blocks_def)

lemma concat_content_items:
  "concat (map content_items (concat (map tool_result_of bs))) = concat (map block_items bs)"
  by (induction bs) (simp_all add: block_items_def del: tool_result_of.simps)

lemma images_of_Cons: "images_of (m # ms) = images_in (message_blocks m) @ images_of ms"
  by (simp add: images_of_def tool_result_blocks_def images_in_def concat_content_items
      del: message_blocks.simps tool_result_of.simps)

lemma filter_messages_counter:
  "fst (filter_messages n ms) = n - int (min (nat n) (length (images_of ms)))"
proof (induction ms arbitrary: n)
  case Nil
  then show ?case by (simp add: images_of_Nil)
next
  case (Cons m ms)
  show ?case
  proof (cases "content m")
    case (Str s)
    then show ?thesis
      by (simp add: split_beta Cons.IH images_of_Cons images_in_def)
  next
    case (Blocks bs)
    then show ?thesis
      by (simp add: split_beta Cons.IH images_of_Cons filter_blocks_counter)
  qed
qed

lemma filter_messages_images:
  "images_of (snd (filter_messages n ms)) = drop (nat n) (images_of ms)"
proof (induction ms arbitrary: n)
  case Nil
  then show ?case by (simp add: images_of_Nil)
next
  case (Cons m ms)
  show ?case
  proof (cases "content m")
    case (Str s)
    then show ?thesis
      by (simp add: split_beta Cons.IH images_of_Cons images_in_def)
  next
    case (Blocks bs)
    have "nat (fst (filter_blocks n bs)) = nat n - length (images_in bs)"
      by (simp add: filter_blocks_counter)
    with Blocks show ?thesis
      using Cons.IH [of "fst (filter_blocks n bs)"]
      by (simp add: split_beta images_of_Cons filter_blocks_images)
  qed
qed

lemma filter_messages_erase:
  "map erase_images (snd (filter_messages n ms)) = map erase_images ms"
proof (induction ms arbitrary: n)
  case Nil
  then show ?case by simp
next
  case (Cons m ms)
  then show ?case
    by (cases "content m") (simp_all add: split_beta filter_blocks_erase del: erase_block.simps)
qed

lemma total_images_eq: "total_images ms = int (length (images_of ms))"
  by (simp add: total_images_def images_of_def)

lemma rounded_excess:
  fixes r keep chunk :: int
  assumes "1 \<le> chunk"
  shows "nat (r - r mod chunk) = nat (max 0 r - max 0 r mod chunk)"
proof (cases "0 \<le> r")
  case True
  then show ?thesis by (simp add: max_def)
next
  case False
  moreover have "0 \<le> r mod chunk" using assms by simp
  ultimately show ?thesis by (simp add: max_def)
qed

lemma rounded_excess_le:
  fixes t keep chunk :: int
  assumes "1 \<le> keep" and "1 \<le> chunk" and "0 \<le> t"
  shows "max 0 (t - keep) - max 0 (t - keep) mod chunk \<le> t"
proof -
  have "0 \<le> max 0 (t - keep) mod chunk" using assms(2) by simp
  moreover have "max 0 (t - keep) \<le> t" using assms by simp
  ultimately show ?thesis by linarith
qed

text \<open>
  C2. For \<open>keep \<ge> 1\<close> and \<open>chunk \<ge> 1\<close> the filter returns a conversation in which the
  images of the tool results are those of the input without the first (oldest) \<open>removed\<close>
  ones, where \<open>removed\<close> is \<open>max(0, total - keep)\<close> rounded down to a multiple of \<open>chunk\<close>;
  the number of images goes down by exactly \<open>removed\<close>; without its images the
  conversation is the same as before, so every other item is unchanged and in its place;
  and with 7 images, \<open>keep = 1\<close> and \<open>chunk = 3\<close>, 6 images are removed and 1 remains.
\<close>

theorem image_retention_removes_oldest_excess:
  assumes "1 \<le> keep" and "1 \<le> chunk"
  shows "let excess = max 0 (total_images messages - keep);
             removed = nat (excess - excess mod chunk)
         in \<exists>messages'.
              maybe_filter_to_n_most_recent_images messages (Some keep) chunk = Inr messages' \<and>
              images_of messages' = drop removed (images_of messages) \<and>
              total_images messages' = total_images messages - int removed \<and>
              map erase_images messages' = map erase_images messages \<and>
              (total_images messages = 7 \<and> keep = 1 \<and> chunk = 3 \<longrightarrow>
                 removed = 6 \<and> total_images messages' = 1)"
proof -
  define r where "r = total_images messages - keep"
  define excess where "excess = max 0 r"
  define removed where "removed = nat (excess - excess mod chunk)"
  define messages' where "messages' = snd (filter_messages (r - r mod chunk) messages)"
  have run: "maybe_filter_to_n_most_recent_images messages (Some keep) chunk = Inr messages'"
    using assms(2)
    by (simp add: maybe_filter_to_n_most_recent_images_def messages'_def r_def Let_def)
  have k: "nat (r - r mod chunk) = removed"
    using rounded_excess [OF assms(2), of r] by (simp add: removed_def excess_def)
  have images: "images_of messages' = drop removed (images_of messages)"
    by (simp add: messages'_def filter_messages_images k)
  have "excess - excess mod chunk \<le> total_images messages"
    using rounded_excess_le [OF assms, of "total_images messages"]
    by (simp add: excess_def r_def total_images_eq)
  then have le: "removed \<le> length (images_of messages)"
    by (simp add: removed_def total_images_eq)
  have total: "total_images messages' = total_images messages - int removed"
    using le by (simp add: total_images_eq images)
  have erase: "map erase_images messages' = map erase_images messages"
    by (simp add: messages'_def filter_messages_erase del: erase_images.simps)
  have seven: "removed = 6 \<and> total_images messages' = 1"
    if "total_images messages = 7 \<and> keep = 1 \<and> chunk = 3"
  proof -
    from that have "removed = 6" by (simp add: removed_def excess_def r_def)
    with that total show ?thesis by simp
  qed
  show ?thesis
    using run images total erase seven
    unfolding Let_def excess_def [symmetric] r_def [symmetric] removed_def [symmetric]
    by (simp add: excess_def r_def removed_def del: erase_images.simps) 
qed

lemma seven_images_total: "total_images seven_images = 7"
  by (simp add: seven_images_def total_images_def tool_result_blocks_def msg_def plain_def)

lemma seven_images_filtered:
  "maybe_filter_to_n_most_recent_images seven_images (Some 1) 3 =
     Inr [msg User (Blocks [plain (ToolResult ''a'' (ContentList [RText ''x'']) False)]),
          msg Assistant (Str ''next''),
          msg User (Blocks
            [plain (ToolResult ''b'' (ContentList [RText ''y'']) False),
             plain (ToolResult ''c'' (ContentList [RImage ''image/png'' ''7'']) False)])]"
  by (simp add: maybe_filter_to_n_most_recent_images_def seven_images_total Let_def)
    (simp add: seven_images_def msg_def plain_def)

theorem image_retention_removes_oldest_excess_witness:
  "(1::int) \<le> 1 \<and> (1::int) \<le> 3 \<and> total_images seven_images = 7 \<and>
   (\<exists>messages'.
      maybe_filter_to_n_most_recent_images seven_images (Some 1) 3 = Inr messages' \<and>
      images_of messages' = drop 6 (images_of seven_images) \<and>
      total_images messages' = 1 \<and>
      map erase_images messages' = map erase_images seven_images)"
  using image_retention_removes_oldest_excess [of 1 3 seven_images]
  by (simp add: seven_images_total Let_def del: erase_images.simps) blast

section \<open>The cache breakpoints\<close>

lemma set_last_cache_control_nonempty:
  "bs \<noteq> [] \<Longrightarrow>
     set_last_cache_control v bs = Inr (butlast bs @ [(last bs)\<lparr>cache_control := v\<rparr>])"
  by (cases bs) simp_all

lemma inject_reversed_skip:
  "\<forall>m\<in>set g. \<not> eligible m \<Longrightarrow>
     inject_reversed n (g @ rest) =
       (case inject_reversed n rest of Inl e \<Rightarrow> Inl e | Inr r \<Rightarrow> Inr (g @ r))"
  by (induction g) (auto simp: eligible_def split: content.splits sum.splits)

lemma inject_reversed_mark:
  assumes "eligible m" and "message_blocks m \<noteq> []" and "n \<noteq> 0"
  shows "inject_reversed n (m # rest) =
           (case inject_reversed (n - 1) rest of
              Inl e \<Rightarrow> Inl e
            | Inr r \<Rightarrow> Inr (mark True m # r))"
  using assms
  by (auto simp: eligible_def mark_def set_last_cache_control_nonempty
      split: content.splits sum.splits)

lemma inject_reversed_clear:
  assumes "eligible m" and "message_blocks m \<noteq> []"
  shows "inject_reversed 0 (m # rest) = Inr (mark False m # rest)"
  using assms
  by (auto simp: eligible_def mark_def set_last_cache_control_nonempty
      split: content.splits sum.splits)

lemma has_marker_mark_True:
  "eligible m \<Longrightarrow> message_blocks m \<noteq> [] \<Longrightarrow> has_marker (mark True m)"
  by (auto simp: has_marker_def mark_def eligible_def list_ex_iff split: content.splits)

lemma has_marker_mark_False:
  "\<not> has_marker m \<Longrightarrow> \<not> has_marker (mark False m)"
  by (auto simp: has_marker_def mark_def list_ex_iff split: content.splits
      dest: in_set_butlastD)

lemma filter_has_marker_none: "\<forall>m\<in>set ms. \<not> has_marker m \<Longrightarrow> filter has_marker ms = []"
  by (induction ms) simp_all

text \<open>
  Every conversation with at least four user messages of list content has the shape
  that the next theorem is stated for.
\<close>

lemma split_at_last_eligible:
  assumes "0 < length (filter eligible ms)"
  shows "\<exists>pre m g. ms = pre @ [m] @ g \<and> eligible m \<and> (\<forall>x\<in>set g. \<not> eligible x) \<and>
           length (filter eligible pre) = length (filter eligible ms) - 1"
proof -
  from assms have "\<exists>x\<in>set ms. eligible x"
    by (metis filter_False length_greater_0_conv)
  from split_list_last_prop [OF this] obtain pre m g
    where ms: "ms = pre @ m # g" and m: "eligible m" and g: "\<forall>x\<in>set g. \<not> eligible x"
    by blast
  from g have "filter eligible g = []" by simp
  with ms m have "length (filter eligible pre) = length (filter eligible ms) - 1" by simp
  with ms m g show ?thesis by auto
qed

lemma four_eligible_shape:
  assumes "4 \<le> length (filter eligible ms)"
  shows "\<exists>pre m4 g3 m3 g2 m2 g1 m1 g0.
           ms = pre @ [m4] @ g3 @ [m3] @ g2 @ [m2] @ g1 @ [m1] @ g0 \<and>
           eligible m1 \<and> eligible m2 \<and> eligible m3 \<and> eligible m4 \<and>
           (\<forall>m\<in>set (g0 @ g1 @ g2 @ g3). \<not> eligible m)"
proof -
  from assms have "0 < length (filter eligible ms)" by linarith
  from split_at_last_eligible [OF this] obtain p1 m1 g0
    where s1: "ms = p1 @ [m1] @ g0" "eligible m1" "\<forall>x\<in>set g0. \<not> eligible x"
      and l1: "length (filter eligible p1) = length (filter eligible ms) - 1"
    by blast
  from l1 assms have "0 < length (filter eligible p1)" by linarith
  from split_at_last_eligible [OF this] obtain p2 m2 g1
    where s2: "p1 = p2 @ [m2] @ g1" "eligible m2" "\<forall>x\<in>set g1. \<not> eligible x"
      and l2: "length (filter eligible p2) = length (filter eligible p1) - 1"
    by blast
  from l1 l2 assms have "0 < length (filter eligible p2)" by linarith
  from split_at_last_eligible [OF this] obtain p3 m3 g2
    where s3: "p2 = p3 @ [m3] @ g2" "eligible m3" "\<forall>x\<in>set g2. \<not> eligible x"
      and l3: "length (filter eligible p3) = length (filter eligible p2) - 1"
    by blast
  from l1 l2 l3 assms have "0 < length (filter eligible p3)" by linarith
  from split_at_last_eligible [OF this] obtain p4 m4 g3
    where s4: "p3 = p4 @ [m4] @ g3" "eligible m4" "\<forall>x\<in>set g3. \<not> eligible x"
    by blast
  have "ms = p4 @ [m4] @ g3 @ [m3] @ g2 @ [m2] @ g1 @ [m1] @ g0"
    using s1(1) s2(1) s3(1) s4(1) by simp
  moreover have "\<forall>m\<in>set (g0 @ g1 @ g2 @ g3). \<not> eligible m"
    using s1(3) s2(3) s3(3) s4(3) by auto
  ultimately show ?thesis
    using s1(2) s2(2) s3(2) s4(2) by blast
qed

text \<open>
  C3, as amended. Take a conversation whose four most recent user messages with a list
  content, \<open>m1\<close> (the newest) to \<open>m4\<close>, each have at least one block; \<open>g0\<close> to \<open>g3\<close> are the
  messages after and between them, none of them a user message with a list content, and
  \<open>pre\<close> is everything older than \<open>m4\<close>. The annotator sets the flag on the last block of
  \<open>m1\<close>, \<open>m2\<close> and \<open>m3\<close>, clears it on the last block of \<open>m4\<close> and leaves every other message,
  all of \<open>pre\<close> included, as it was. If no block carried a flag before, the messages that
  carry one afterwards are exactly those three.
\<close>

theorem cache_breakpoints_on_three_most_recent:
  assumes shape: "messages = pre @ [m4] @ g3 @ [m3] @ g2 @ [m2] @ g1 @ [m1] @ g0"
    and el: "eligible m1" "eligible m2" "eligible m3" "eligible m4"
    and ne: "message_blocks m1 \<noteq> []" "message_blocks m2 \<noteq> []"
            "message_blocks m3 \<noteq> []" "message_blocks m4 \<noteq> []"
    and gaps: "\<forall>m\<in>set (g0 @ g1 @ g2 @ g3). \<not> eligible m"
  shows "inject_prompt_caching messages =
           Inr (pre @ [mark False m4] @ g3 @ [mark True m3] @ g2 @ [mark True m2] @ g1 @
                [mark True m1] @ g0) \<and>
         ((\<forall>m\<in>set messages. \<not> has_marker m) \<longrightarrow>
            filter has_marker
              (pre @ [mark False m4] @ g3 @ [mark True m3] @ g2 @ [mark True m2] @ g1 @
               [mark True m1] @ g0) =
            [mark True m3, mark True m2, mark True m1])"
proof
  have g: "\<forall>m\<in>set (rev g0). \<not> eligible m" "\<forall>m\<in>set (rev g1). \<not> eligible m"
    "\<forall>m\<in>set (rev g2). \<not> eligible m" "\<forall>m\<in>set (rev g3). \<not> eligible m"
    using gaps by auto
  have s4: "inject_reversed 0 (rev g3 @ m4 # rev pre) = Inr (rev g3 @ mark False m4 # rev pre)"
    by (simp add: inject_reversed_skip [OF g(4)] inject_reversed_clear [OF el(4) ne(4)]
        del: inject_reversed.simps)
  have s3: "inject_reversed 1 (rev g2 @ m3 # rev g3 @ m4 # rev pre) =
              Inr (rev g2 @ mark True m3 # rev g3 @ mark False m4 # rev pre)"
    by (simp add: inject_reversed_skip [OF g(3)] inject_reversed_mark [OF el(3) ne(3)] s4
        del: inject_reversed.simps)
  have s2: "inject_reversed 2 (rev g1 @ m2 # rev g2 @ m3 # rev g3 @ m4 # rev pre) =
              Inr (rev g1 @ mark True m2 # rev g2 @ mark True m3 # rev g3 @
                   mark False m4 # rev pre)"
    using s3
    by (simp add: inject_reversed_skip [OF g(2)] inject_reversed_mark [OF el(2) ne(2)]
        del: inject_reversed.simps)
  have s1: "inject_reversed 3
              (rev g0 @ m1 # rev g1 @ m2 # rev g2 @ m3 # rev g3 @ m4 # rev pre) =
              Inr (rev g0 @ mark True m1 # rev g1 @ mark True m2 # rev g2 @ mark True m3 #
                   rev g3 @ mark False m4 # rev pre)"
    using s2
    by (simp add: inject_reversed_skip [OF g(1)] inject_reversed_mark [OF el(1) ne(1)]
        del: inject_reversed.simps)
  show "inject_prompt_caching messages =
          Inr (pre @ [mark False m4] @ g3 @ [mark True m3] @ g2 @ [mark True m2] @ g1 @
               [mark True m1] @ g0)"
    using s1 by (simp add: inject_prompt_caching_def shape)
next
  show "(\<forall>m\<in>set messages. \<not> has_marker m) \<longrightarrow>
          filter has_marker
            (pre @ [mark False m4] @ g3 @ [mark True m3] @ g2 @ [mark True m2] @ g1 @
             [mark True m1] @ g0) =
          [mark True m3, mark True m2, mark True m1]"
  proof
    assume none: "\<forall>m\<in>set messages. \<not> has_marker m"
    then have "filter has_marker pre = []" "filter has_marker g3 = []"
      "filter has_marker g2 = []" "filter has_marker g1 = []" "filter has_marker g0 = []"
      by (simp_all add: shape filter_has_marker_none)
    moreover have "\<not> has_marker (mark False m4)"
      using none by (simp add: shape has_marker_mark_False)
    moreover have "has_marker (mark True m3)" "has_marker (mark True m2)"
      "has_marker (mark True m1)"
      using el ne by (simp_all add: has_marker_mark_True)
    ultimately show "filter has_marker
            (pre @ [mark False m4] @ g3 @ [mark True m3] @ g2 @ [mark True m2] @ g1 @
             [mark True m1] @ g0) =
          [mark True m3, mark True m2, mark True m1]"
      by simp
  qed
qed

theorem cache_breakpoints_on_three_most_recent_witness:
  "inject_prompt_caching five_turns =
     Inr [user_text ''a'', msg Assistant (Str ''1''), user_text ''b'', msg Assistant (Str ''2''),
          mark True (user_text ''c''), mark True (user_text ''d''), msg Assistant (Str ''3''),
          mark True (user_text ''e'')] \<and>
   filter has_marker
     [user_text ''a'', msg Assistant (Str ''1''), user_text ''b'', msg Assistant (Str ''2''),
      mark True (user_text ''c''), mark True (user_text ''d''), msg Assistant (Str ''3''),
      mark True (user_text ''e'')] =
     [mark True (user_text ''c''), mark True (user_text ''d''), mark True (user_text ''e'')]"
  using cache_breakpoints_on_three_most_recent
    [where messages = five_turns
       and pre = "[user_text ''a'', msg Assistant (Str ''1'')]" and ?m4.0 = "user_text ''b''"
       and ?g3.0 = "[msg Assistant (Str ''2'')]" and ?m3.0 = "user_text ''c''" and ?g2.0 = "[]"
       and ?m2.0 = "user_text ''d''" and ?g1.0 = "[msg Assistant (Str ''3'')]"
       and ?m1.0 = "user_text ''e''" and ?g0.0 = "[]"]
  by (simp add: five_turns_def user_text_def eligible_def mark_def has_marker_def msg_def
      plain_def)

text \<open>
  The claim C3 fails on a conversation with four user messages of one block each and a
  newest user message whose content is the empty list: \<open>content[-1]\<close> raises
  \<open>IndexError\<close> there, before any flag is set.
\<close>

theorem empty_user_content_counterexample:
  "inject_prompt_caching
     [user_text ''a'', user_text ''b'', user_text ''c'', user_text ''d'',
      msg User (Blocks [])] = Inl IndexError"
  by (simp add: inject_prompt_caching_def user_text_def msg_def plain_def)

section \<open>The sampling loop\<close>

lemma set_last_clear:
  "set_last_cache_control v bs = Inr bs' \<Longrightarrow> map clear_block bs' = map clear_block bs"
proof (cases bs rule: rev_cases)
  case Nil
  then show "set_last_cache_control v bs = Inr bs' \<Longrightarrow> ?thesis" by simp
next
  case (snoc xs x)
  then have "bs \<noteq> []" by simp
  then have "set_last_cache_control v bs = Inr (butlast bs @ [(last bs)\<lparr>cache_control := v\<rparr>])"
    by (rule set_last_cache_control_nonempty)
  then show "set_last_cache_control v bs = Inr bs' \<Longrightarrow> ?thesis"
    using snoc by auto
qed

lemma inject_reversed_clear_flags:
  "inject_reversed n ms = Inr ms' \<Longrightarrow> map clear_flags ms' = map clear_flags ms"
proof (induction ms arbitrary: n ms')
  case Nil
  then show ?case by simp
next
  case (Cons m ms)
  then show ?case
    by (auto simp: set_last_clear split: content.splits sum.splits if_splits
        simp del: set_last_cache_control.simps clear_block.simps)
qed

lemma inject_clear_flags:
  "inject_prompt_caching ms = Inr ms' \<Longrightarrow> map clear_flags ms' = map clear_flags ms"
proof -
  assume a: "inject_prompt_caching ms = Inr ms'"
  then obtain r where r: "inject_reversed 3 (rev ms) = Inr r" and ms': "ms' = rev r"
    by (auto simp: inject_prompt_caching_def split: sum.splits)
  from inject_reversed_clear_flags [OF r] have "map clear_flags r = map clear_flags (rev ms)" .
  then have "rev (map clear_flags r) = rev (map clear_flags (rev ms))" by simp
  then show ?thesis by (simp add: ms' rev_map del: clear_flags.simps)
qed











lemma history_policies_other:
  "provider \<noteq> ANTHROPIC \<and> int_truthy only_n \<Longrightarrow>
     history_policies provider only_n ms =
       (case maybe_filter_to_n_most_recent_images ms only_n (the only_n) of
          Inl err \<Rightarrow> Inl err
        | Inr ms' \<Rightarrow> Inr (ms', only_n))"
  by (simp add: history_policies_def Let_def split: sum.splits)

lemma history_policies_anthropic:
  "history_policies ANTHROPIC only_n ms =
     (case inject_prompt_caching ms of Inl e \<Rightarrow> Inl e | Inr ms1 \<Rightarrow> Inr (ms1, Some 0))"
  by (simp add: history_policies_def Let_def split: sum.splits)

lemma dispatch_block_append:
  assumes "dispatch_block e p (None, [], [], [], w) b = (r, a, n, c, w')"
  shows "dispatch_block e p (None, trc, ntm, tr, w) b = (r, trc @ a, ntm @ n, tr @ c, w')"
  using assms
  by (cases "body b") (auto simp: split_beta Let_def split: if_splits sum.splits prod.splits)

lemma foldl_dispatch_raised:
  "foldl (dispatch_block e p) (Some m, a, n, c, w) bs = (Some m, a, n, c, w)"
  by (induction bs) simp_all

lemma foldl_dispatch_block:
  assumes "dispatch e p w params = (r, a, n, c, w')"
  shows "foldl (dispatch_block e p) (None, trc, ntm, tr, w) params =
           (r, trc @ a, ntm @ n, tr @ c, w')"
  using assms
proof (induction params arbitrary: trc ntm tr w r a n c w')
  case Nil
  then show ?case by (simp add: dispatch_def)
next
  case (Cons x xs)
  obtain r1 a1 n1 c1 w1
    where step: "dispatch_block e p (None, [], [], [], w) x = (r1, a1, n1, c1, w1)"
    by (metis prod_cases5)
  have first: "dispatch e p w (x # xs) = foldl (dispatch_block e p) (r1, a1, n1, c1, w1) xs"
    by (simp add: dispatch_def step del: dispatch_block.simps)
  have lhs: "foldl (dispatch_block e p) (None, trc, ntm, tr, w) (x # xs) =
          foldl (dispatch_block e p) (r1, trc @ a1, ntm @ n1, tr @ c1, w1) xs"
    by (simp add: dispatch_block_append [OF step] del: dispatch_block.simps)
  show ?case
  proof (cases r1)
    case (Some m)
    with first Cons.prems have "r = Some m" "a = a1" "n = n1" "c = c1" "w' = w1"
      by (simp_all add: foldl_dispatch_raised)
    with lhs Some show ?thesis by (simp add: foldl_dispatch_raised)
  next
    case None
    obtain r2 a2 n2 c2 w2 where rest: "dispatch e p w1 xs = (r2, a2, n2, c2, w2)"
      by (metis prod_cases5)
    have "foldl (dispatch_block e p) (None, a1, n1, c1, w1) xs =
            (r2, a1 @ a2, n1 @ n2, c1 @ c2, w2)"
      by (rule Cons.IH [OF rest])
    with first None Cons.prems
    have eq: "r = r2" "a = a1 @ a2" "n = n1 @ n2" "c = c1 @ c2" "w' = w2"
      by simp_all
    have "foldl (dispatch_block e p) (None, trc @ a1, ntm @ n1, tr @ c1, w1) xs =
            (r2, (trc @ a1) @ a2, (ntm @ n1) @ n2, (tr @ c1) @ c2, w2)"
      by (rule Cons.IH [OF rest])
    with lhs None show ?thesis by (simp add: eq)
  qed
qed

lemma dispatch_Nil: "dispatch e p w [] = (None, [], [], [], w)"
  by (simp add: dispatch_def)

lemma dispatch_append:
  assumes "dispatch e p w xs = (None, a1, n1, c1, w1)"
    and "dispatch e p w1 ys = (r2, a2, n2, c2, w2)"
  shows "dispatch e p w (xs @ ys) = (r2, a1 @ a2, n1 @ n2, c1 @ c2, w2)"
proof -
  have "dispatch e p w (xs @ ys) = foldl (dispatch_block e p) (None, a1, n1, c1, w1) ys"
    using assms(1) by (simp add: dispatch_def)
  then show ?thesis by (simp add: foldl_dispatch_block [OF assms(2)])
qed

lemma dispatch_single:
  "dispatch e p w [x] = dispatch_block e p (None, [], [], [], w) x"
  by (simp add: dispatch_def)

lemma dispatch_Cons:
  assumes "dispatch_block e p (None, [], [], [], w) x = (None, a1, n1, c1, w1)"
    and "dispatch e p w1 xs = (r2, a2, n2, c2, w2)"
  shows "dispatch e p w (x # xs) = (r2, a1 @ a2, n1 @ n2, c1 @ c2, w2)"
  using dispatch_append [of e p w "[x]" a1 n1 c1 w1 xs r2 a2 n2 c2 w2] assms
  by (simp add: dispatch_single del: dispatch_block.simps)

lemma dispatch_Cons_raised:
  assumes "dispatch_block e p (None, [], [], [], w) x = (Some m, a1, n1, c1, w1)"
  shows "dispatch e p w (x # xs) = (Some m, a1, n1, c1, w1)"
  by (simp add: dispatch_def assms foldl_dispatch_raised del: dispatch_block.simps)


lemma iteration_response:
  assumes "history_policies provider only_n messages = Inr (messages1, only_n')"
    and "create e w (build_request e provider system_content messages1) = (Inr raw, w1)"
    and "response_params e raw = Inr params"
    and "dispatch e provider w1 params = (None, a, n, c, w2)"
  shows "iteration e provider system_content only_n messages trace w =
           ((if provider = NEBIUS
             then (if n \<noteq> []
                   then Continue (messages1 @ [msg Assistant (Blocks params)] @ n)
                   else Return (messages1 @ [msg Assistant (Blocks params)]))
             else (if a = []
                   then Return (messages1 @ [msg Assistant (Blocks params)])
                   else Continue (messages1 @ [msg Assistant (Blocks params),
                                               msg User (Blocks a)]))),
            only_n',
            trace @ [BackendCall (build_request e provider system_content messages1),
                     ApiResponseCallback None] @ c,
            w2)"
  using assms(1,2,3) foldl_dispatch_block [OF assms(4)]
  by (simp add: iteration_def Let_def)

lemma iteration_tool_raises:
  assumes "history_policies provider only_n messages = Inr (messages1, only_n')"
    and "create e w (build_request e provider system_content messages1) = (Inr raw, w1)"
    and "response_params e raw = Inr params"
    and "dispatch e provider w1 params = (Some message, a, n, c, w2)"
  shows "iteration e provider system_content only_n messages trace w =
           (Raise (ToolRunError message), only_n',
            trace @ [BackendCall (build_request e provider system_content messages1),
                     ApiResponseCallback None] @ c,
            w2)"
  using assms(1,2,3) foldl_dispatch_block [OF assms(4)]
  by (simp add: iteration_def Let_def)

lemma iteration_api_error:
  assumes "history_policies provider only_n messages = Inr (messages1, only_n')"
    and "create e w (build_request e provider system_content messages1) = (Inl err, w1)"
  shows "iteration e provider system_content only_n messages trace w =
           (Return messages1, only_n',
            trace @ [BackendCall (build_request e provider system_content messages1),
                     ApiResponseCallback (Some err)],
            w1)"
  using assms by (simp add: iteration_def Let_def)


lemma first_iteration_api_error:
  assumes "history_policies provider only_n messages = Inr (messages1, only_n')"
    and "create e w (build_request e provider system_content messages1) = (Inl err, w1)"
  shows "sampling_loop (Suc fuel) e provider system_content only_n messages trace w =
           Some (Return messages1,
                 trace @ [BackendCall (build_request e provider system_content messages1),
                          ApiResponseCallback (Some err)],
                 w1)"
  using iteration_api_error [OF assms, of trace] by simp









subsection \<open>A tool call that raises, and a tool that reports an error\<close>














subsection \<open>The shape of an iteration, and the provider \<open>ANTHROPIC\<close>\<close>

lemma dispatch_block_requests:
  "dispatch_block e p (None, [], [], [], w) b = (r, a, n, c, w') \<Longrightarrow> requests c = []"
  by (cases "body b")
    (auto simp: requests_def split_beta Let_def split: if_splits sum.splits prod.splits)

lemma dispatch_requests:
  "dispatch e p w params = (r, a, n, c, w') \<Longrightarrow> requests c = []"
proof (induction params arbitrary: w r a n c w')
  case Nil
  then show ?case by (simp add: dispatch_Nil requests_def)
next
  case (Cons x xs)
  obtain r1 a1 n1 c1 w1
    where step: "dispatch_block e p (None, [], [], [], w) x = (r1, a1, n1, c1, w1)"
    by (metis prod_cases5)
  have c1: "requests c1 = []" by (rule dispatch_block_requests [OF step])
  show ?case
  proof (cases r1)
    case (Some m)
    with dispatch_Cons_raised [of e p w x m a1 n1 c1 w1 xs] step Cons.prems
    have "c = c1" by simp
    with c1 show ?thesis by simp
  next
    case None
    obtain r2 a2 n2 c2 w2 where rest: "dispatch e p w1 xs = (r2, a2, n2, c2, w2)"
      by (metis prod_cases5)
    have "c = c1 @ c2"
      using dispatch_Cons [OF step [unfolded None] rest] Cons.prems by simp
    moreover have "requests c2 = []" by (rule Cons.IH [OF rest])
    ultimately show ?thesis using c1 by (simp add: requests_def)
  qed
qed

lemma make_nebius_tool_result_urls: "conversation_urls (make_nebius_tool_result r tid n) = []"
  by (simp add: conversation_urls_def make_nebius_tool_result_def msg_def plain_def)

lemma conversation_urls_append:
  "conversation_urls (xs @ ys) = conversation_urls xs @ conversation_urls ys"
  by (simp add: conversation_urls_def)

lemma conversation_urls_Nil: "conversation_urls [] = []"
  by (simp add: conversation_urls_def)

lemma dispatch_block_urls:
  "dispatch_block e NEBIUS (None, [], [], [], w) b = (r, a, n, c, w') \<Longrightarrow>
     conversation_urls n = []"
  by (cases "body b")
    (auto simp: split_beta Let_def make_nebius_tool_result_urls conversation_urls_Nil
      split: sum.splits prod.splits)

lemma dispatch_urls:
  "dispatch e NEBIUS w params = (r, a, n, c, w') \<Longrightarrow> conversation_urls n = []"
proof (induction params arbitrary: w r a n c w')
  case Nil
  then show ?case by (simp add: dispatch_Nil conversation_urls_def)
next
  case (Cons x xs)
  obtain r1 a1 n1 c1 w1
    where step: "dispatch_block e NEBIUS (None, [], [], [], w) x = (r1, a1, n1, c1, w1)"
    by (metis prod_cases5)
  have n1: "conversation_urls n1 = []" by (rule dispatch_block_urls [OF step])
  show ?case
  proof (cases r1)
    case (Some m)
    with dispatch_Cons_raised [of e NEBIUS w x m a1 n1 c1 w1 xs] step Cons.prems
    have "n = n1" by simp
    with n1 show ?thesis by simp
  next
    case None
    obtain r2 a2 n2 c2 w2 where rest: "dispatch e NEBIUS w1 xs = (r2, a2, n2, c2, w2)"
      by (metis prod_cases5)
    have "n = n1 @ n2"
      using dispatch_Cons [OF step [unfolded None] rest] Cons.prems by simp
    moreover have "conversation_urls n2 = []" by (rule Cons.IH [OF rest])
    ultimately show ?thesis using n1 by (simp add: conversation_urls_append)
  qed
qed

lemma tool_use_blocks_urls:
  "tool_use_blocks loads acc tcs = Inr params \<Longrightarrow>
     \<forall>b\<in>set acc. block_urls b = [] \<Longrightarrow> \<forall>b\<in>set params. block_urls b = []"
proof (induction tcs arbitrary: acc)
  case Nil
  then show ?case by simp
next
  case (Cons tc tcs)
  from Cons.prems(1) obtain inp where inp: "loads (function_arguments tc) = Some inp"
    by (cases "loads (function_arguments tc)") simp_all
  let ?acc = "acc @ [plain (ToolUse (call_id tc) (function_name tc) inp)]"
  have run: "tool_use_blocks loads ?acc tcs = Inr params"
    using Cons.prems(1) inp by simp
  have "block_urls (plain (ToolUse (call_id tc) (function_name tc) inp)) = []"
    by (simp add: plain_def)
  with Cons.prems(2) have "\<forall>b\<in>set ?acc. block_urls b = []"
    by (simp del: block_urls.simps)
  from Cons.IH [OF run this] show ?case .
qed

lemma openai_response_urls:
  assumes "convert_openai_response_to_anthropic loads r = Inr params"
  shows "\<forall>b\<in>set params. block_urls b = []"
proof -
  from assms obtain c cs where c: "choices r = c # cs"
    by (cases "choices r") (simp_all add: convert_openai_response_to_anthropic_def)
  define acc :: "'a block list" where
    "acc = (if truthy (c_content c) then [plain (Text (the (c_content c)))] else [])"
  have "block_urls (plain (Text t) :: 'a block) = []" for t
    by (simp add: plain_def)
  then have acc: "\<forall>b\<in>set acc. block_urls b = []"
    by (simp add: acc_def del: block_urls.simps)
  have conv: "convert_openai_response_to_anthropic loads r =
      (case c_tool_calls c of None \<Rightarrow> Inr acc | Some tcs \<Rightarrow> tool_use_blocks loads acc tcs)"
    by (cases "truthy (c_content c)")
      (simp_all add: convert_openai_response_to_anthropic_def c Let_def acc_def
        split: option.splits)
  show ?thesis
  proof (cases "c_tool_calls c")
    case None
    with assms conv have "params = acc" by simp
    with acc show ?thesis by simp
  next
    case (Some tcs)
    with assms conv have "tool_use_blocks loads acc tcs = Inr params" by simp
    from tool_use_blocks_urls [OF this acc] show ?thesis .
  qed
qed

lemma create_nebius:
  assumes "create e w (build_request e NEBIUS sys ms1) = (Inr raw, w1)"
  shows "\<exists>r. raw = OpenAIResponse r"
proof -
  obtain res w' where oc: "openai_create e w
      (system_message sys # convert_anthropic_messages_to_openai (json_dumps e) ms1) = (res, w')"
    by (metis surj_pair)
  show ?thesis
  proof (cases res)
    case (Inl err)
    with assms oc show ?thesis by (simp add: build_request_def)
  next
    case (Inr r)
    with assms oc show ?thesis by (auto simp: build_request_def)
  qed
qed

lemma nebius_response_urls:
  assumes "create e w (build_request e NEBIUS sys ms1) = (Inr raw, w1)"
    and "response_params e raw = Inr params"
  shows "conversation_urls [msg Assistant (Blocks params)] = []"
proof -
  from create_nebius [OF assms(1)] obtain r where "raw = OpenAIResponse r" ..
  with assms(2) have "convert_openai_response_to_anthropic (json_loads e) r = Inr params"
    by simp
  from openai_response_urls [OF this] have "\<forall>b\<in>set params. block_urls b = []" .
  then have "concat (map block_urls params) = []"
    by (simp del: block_urls.simps)
  then show ?thesis
    by (simp add: conversation_urls_def msg_def del: block_urls.simps)
qed

text \<open>
  What an iteration can do: a history policy raises; or a request with the conversation
  the policies left is sent, no other request, and the iteration raises, or continues or
  returns with that conversation and messages appended to it (for \<open>NEBIUS\<close>, messages
  without an image in the Anthropic shape).
\<close>

lemma iteration_shape:
  assumes "iteration e p sys k ms tr w = (step, k', tr', w')"
  shows "(\<exists>err. history_policies p k ms = Inl err \<and> step = Raise err \<and> tr' = tr) \<or>
         (\<exists>ms1 evs. history_policies p k ms = Inr (ms1, k') \<and>
            tr' = tr @ BackendCall (build_request e p sys ms1) # evs \<and> requests evs = [] \<and>
            ((\<exists>err. step = Raise err) \<or>
             (\<exists>ext. (step = Continue (ms1 @ ext) \<or> step = Return (ms1 @ ext)) \<and>
                (p = NEBIUS \<longrightarrow> conversation_urls ext = []))))"
proof (cases "history_policies p k ms")
  case (Inl err)
  with assms show ?thesis by (simp add: iteration_def)
next
  case (Inr pr)
  obtain ms1 k1 where pr: "pr = (ms1, k1)" by (cases pr)
  note pol = Inr [unfolded pr]
  obtain res w1 where cr: "create e w (build_request e p sys ms1) = (res, w1)"
    by (cases "create e w (build_request e p sys ms1)")
  show ?thesis
  proof (cases res)
    case (Inl err)
    from iteration_api_error [OF pol cr [unfolded Inl], of tr] assms
    have "step = Return (ms1 @ [])" "k' = k1"
      "tr' = tr @ BackendCall (build_request e p sys ms1) # [ApiResponseCallback (Some err)]"
      by simp_all
    moreover have "requests [ApiResponseCallback (Some err) :: 'a event] = []"
      by (simp add: requests_def)
    moreover have "conversation_urls ([] :: 'a message list) = []"
      by (simp add: conversation_urls_def)
    ultimately show ?thesis using pol by blast
  next
    case (Inr raw)
    note cr' = cr [unfolded Inr]
    show ?thesis
    proof (cases "response_params e raw")
      case (Inl err)
      with assms pol cr' have "step = Raise err" "k' = k1"
        "tr' = tr @ BackendCall (build_request e p sys ms1) # [ApiResponseCallback None]"
        by (simp_all add: iteration_def Let_def)
      moreover have "requests [ApiResponseCallback None :: 'a event] = []"
        by (simp add: requests_def)
      ultimately show ?thesis using pol by blast
    next
      case (Inr params)
      obtain r a n c w2 where d: "dispatch e p w1 params = (r, a, n, c, w2)"
        by (metis prod_cases5)
      have rq: "requests (ApiResponseCallback None # c) = []"
        using dispatch_requests [OF d] by (simp add: requests_def)
      show ?thesis
      proof (cases r)
        case (Some message)
        note it = iteration_tool_raises [OF pol cr' Inr d [unfolded Some], where trace = tr]
        have "step = Raise (ToolRunError message)" "k' = k1"
          "tr' = tr @ BackendCall (build_request e p sys ms1) # (ApiResponseCallback None # c)"
          using it assms by simp_all
        with rq pol show ?thesis by blast
      next
        case None
        note d0 = d [unfolded None]
        note it = iteration_response [OF pol cr' Inr d0, where trace = tr]
        have k: "k' = k1" and
          tr': "tr' = tr @ BackendCall (build_request e p sys ms1) #
                  (ApiResponseCallback None # c)"
          using it assms by simp_all
        have "\<exists>ext. (step = Continue (ms1 @ ext) \<or> step = Return (ms1 @ ext)) \<and>
                  (p = NEBIUS \<longrightarrow> conversation_urls ext = [])"
        proof (cases "p = NEBIUS")
          case True
          from True cr' have cr'': "create e w (build_request e NEBIUS sys ms1) = (Inr raw, w1)"
            by simp
          from True d0 have d': "dispatch e NEBIUS w1 params = (None, a, n, c, w2)"
            by simp
          have u1: "conversation_urls [msg Assistant (Blocks params)] = []"
            by (rule nebius_response_urls [OF cr'' Inr])
          have u2: "conversation_urls n = []"
            by (rule dispatch_urls [OF d'])
          have u: "conversation_urls ([msg Assistant (Blocks params)] @ n) = []"
            using u1 u2 by (simp only: conversation_urls_append) simp
          have "step = Continue (ms1 @ [msg Assistant (Blocks params)] @ n) \<or>
                step = Return (ms1 @ [msg Assistant (Blocks params)] @ n)"
            using it assms True by (cases "n = []") simp_all
          with u show ?thesis by blast
        next
          case False
          have "step = Continue (ms1 @ [msg Assistant (Blocks params), msg User (Blocks a)]) \<or>
                step = Return (ms1 @ [msg Assistant (Blocks params)])"
            using it assms False by (cases "a = []") simp_all
          with False show ?thesis by blast
        qed
        with k tr' rq pol show ?thesis by blast
      qed
    qed
  qed
qed

lemma requests_sent: "requests evs = [] \<Longrightarrow> sent evs = []"
proof (induction evs)
  case Nil
  then show ?case by (simp add: sent_def)
next
  case (Cons ev evs)
  then show ?case
    by (cases ev) (simp_all add: sent_def requests_def)
qed

lemma sent_append: "sent (xs @ ys) = sent xs @ sent ys"
  by (simp add: sent_def)

lemma sent_anthropic_call:
  "requests evs = [] \<Longrightarrow>
     sent (BackendCall (build_request e ANTHROPIC sys ms1) # evs) = [ms1]"
  using requests_sent [of evs] by (simp add: sent_def build_request_def)

lemma keeps_eq: "map clear_flags a = map clear_flags b \<Longrightarrow> keeps b a"
  by (simp add: keeps_def)

lemma keeps_trans: "keeps a b \<Longrightarrow> keeps b c \<Longrightarrow> keeps a c"
  unfolding keeps_def by (rule prefix_order.trans)

lemma keeps_append: "keeps a (a @ ext)"
  by (simp add: keeps_def del: clear_flags.simps)

lemma keeps_after_policies:
  assumes "history_policies ANTHROPIC k ms = Inr (ms1, k')"
  shows "keeps ms ms1" and "k' = Some 0"
proof -
  from assms obtain r where r: "inject_prompt_caching ms = Inr r" and eq: "ms1 = r" "k' = Some 0"
    by (auto simp: history_policies_anthropic split: sum.splits)
  from inject_clear_flags [OF r] eq show "keeps ms ms1" by (simp add: keeps_eq)
  from eq show "k' = Some 0" by simp
qed

lemma anthropic_iteration_keeps:
  assumes "iteration e ANTHROPIC sys k ms tr w = (step, k', tr', w')"
    and "step = Continue m \<or> step = Return m"
  shows "k' = Some 0 \<and> keeps ms m"
proof -
  from iteration_shape [OF assms(1)] assms(2)
  obtain ms1 ext where pol: "history_policies ANTHROPIC k ms = Inr (ms1, k')"
    and m: "m = ms1 @ ext"
    by auto
  from keeps_after_policies [OF pol] keeps_append [of ms1 ext] m
  show ?thesis using keeps_trans by blast
qed

lemma anthropic_loop_chain:
  assumes "sampling_loop fuel e ANTHROPIC sys k ms tr w = Some (outcome, tr', w')"
    and "\<forall>h\<in>set hs. keeps h ms" and "sorted_wrt keeps hs"
  shows "\<exists>new. tr' = tr @ new \<and> sorted_wrt keeps (hs @ [ms] @ sent new @ returned outcome)"
  using assms
proof (induction fuel arbitrary: k ms tr w hs)
  case 0
  then show ?case by simp
next
  case (Suc fuel)
  obtain step k1 tr1 w1 where it: "iteration e ANTHROPIC sys k ms tr w = (step, k1, tr1, w1)"
    by (metis prod_cases4)
  have base: "sorted_wrt keeps (hs @ [ms])"
    using Suc.prems(2,3) by (simp add: sorted_wrt_append)
  from iteration_shape [OF it] consider
      (policy) err where "step = Raise err" and "tr1 = tr"
    | (raised) ms1 evs err where "history_policies ANTHROPIC k ms = Inr (ms1, k1)"
        and "tr1 = tr @ BackendCall (build_request e ANTHROPIC sys ms1) # evs"
        and "requests evs = []" and "step = Raise err"
    | (extended) ms1 evs ext where "history_policies ANTHROPIC k ms = Inr (ms1, k1)"
        and "tr1 = tr @ BackendCall (build_request e ANTHROPIC sys ms1) # evs"
        and "requests evs = []"
        and "step = Continue (ms1 @ ext) \<or> step = Return (ms1 @ ext)"
    by blast
  then show ?case
  proof cases
    case policy
    with Suc.prems(1) it have "outcome = Raise err" "tr' = tr @ []" by simp_all
    with base show ?thesis by (simp add: sent_def)
  next
    case raised
    note pol = raised(1) and tr1 = raised(2) and evs = raised(3)
    from raised(4) Suc.prems(1) it have out: "outcome = Raise err" "tr' = tr1" by simp_all
    have k: "keeps ms ms1" by (rule keeps_after_policies(1) [OF pol])
    then have "\<forall>h\<in>set hs. keeps h ms1" using Suc.prems(2) keeps_trans by blast
    with base k have "sorted_wrt keeps (hs @ [ms] @ [ms1])"
      by (simp add: sorted_wrt_append)
    then show ?thesis
      using out tr1 sent_anthropic_call [OF evs, of e sys ms1] by simp
  next
    case extended
    note pol = extended(1) and tr1 = extended(2) and evs = extended(3) and step = extended(4)
    have k: "keeps ms ms1" by (rule keeps_after_policies(1) [OF pol])
    have k1: "keeps ms1 (ms1 @ ext)" by (rule keeps_append)
    have k2: "keeps ms (ms1 @ ext)" using k k1 by (rule keeps_trans)
    have h1: "\<forall>h\<in>set hs. keeps h ms1" using Suc.prems(2) k keeps_trans by blast
    have h2: "\<forall>h\<in>set hs. keeps h (ms1 @ ext)" using h1 k1 keeps_trans by blast
    have snt: "sent (BackendCall (build_request e ANTHROPIC sys ms1) # evs) = [ms1]"
      by (rule sent_anthropic_call [OF evs])
    from step show ?thesis
    proof
      assume r: "step = Return (ms1 @ ext)"
      with Suc.prems(1) it have out: "outcome = Return (ms1 @ ext)" "tr' = tr1" by simp_all
      have "sorted_wrt keeps (hs @ [ms] @ [ms1] @ [ms1 @ ext])"
        using base k k1 k2 h1 h2 by (simp add: sorted_wrt_append)
      then show ?thesis using out tr1 snt by simp
    next
      assume c: "step = Continue (ms1 @ ext)"
      with Suc.prems(1) it
      have run: "sampling_loop fuel e ANTHROPIC sys k1 (ms1 @ ext) tr1 w1 = Some (outcome, tr', w')"
        by simp
      have p1: "\<forall>h\<in>set (hs @ [ms, ms1]). keeps h (ms1 @ ext)"
        using h2 k2 k1 by simp
      have p2: "sorted_wrt keeps (hs @ [ms, ms1])"
        using base k h1 by (simp add: sorted_wrt_append)
      from Suc.IH [OF run p1 p2] obtain new2 where new2: "tr' = tr1 @ new2"
        and chain: "sorted_wrt keeps
          ((hs @ [ms, ms1]) @ [ms1 @ ext] @ sent new2 @ returned outcome)"
        by blast
      from chain have "sorted_wrt keeps (hs @ [ms] @ [ms1] @ sent new2 @ returned outcome)"
        by (simp add: sorted_wrt_append)
      moreover have "tr' = tr @ (BackendCall (build_request e ANTHROPIC sys ms1) # evs @ new2)"
        using new2 tr1 by simp
      moreover have "sent (BackendCall (build_request e ANTHROPIC sys ms1) # evs @ new2) =
          [ms1] @ sent new2"
        using snt sent_append [of "BackendCall (build_request e ANTHROPIC sys ms1) # evs" new2]
        by simp
      ultimately show ?thesis by (metis append_Cons append_Nil)
    qed
  qed
qed

lemma images_of_append: "images_of (xs @ ys) = images_of xs @ images_of ys"
  by (simp add: images_of_def tool_result_blocks_def)

lemma block_items_clear: "block_items (clear_block b) = block_items b"
  by (simp add: block_items_def)

lemma images_in_clear: "images_in (map clear_block bs) = images_in bs"
  by (induction bs) (simp_all add: images_in_def block_items_clear del: clear_block.simps)

lemma images_of_clear: "images_of (map clear_flags ms) = images_of ms"
proof (induction ms)
  case Nil
  then show ?case by simp
next
  case (Cons m ms)
  have "images_in (message_blocks (clear_flags m)) = images_in (message_blocks m)"
    by (cases "content m") (simp_all add: images_in_clear del: clear_block.simps)
  with Cons show ?case
    by (simp add: images_of_Cons del: clear_flags.simps message_blocks.simps)
qed

lemma keeps_images: "keeps a b \<Longrightarrow> prefix (images_of a) (images_of b)"
proof -
  assume "keeps a b"
  then obtain ext where "map clear_flags b = map clear_flags a @ ext"
    by (auto simp: keeps_def prefix_def)
  then have "images_of (map clear_flags b) = images_of (map clear_flags a) @ images_of ext"
    by (simp add: images_of_append)
  then show ?thesis by (simp add: images_of_clear)
qed

text \<open>
  C9, as amended. For the provider \<open>ANTHROPIC\<close> and every \<open>only_n_most_recent_images\<close>:
  the head of the loop body is the cache annotation alone, with the image count set to 0
  and the image filter not applied; every iteration, from any conversation, leaves the
  count at 0 and keeps the conversation (it only sets or clears cache flags and appends
  messages); and in a run of the loop every conversation that is sent and the one that is
  returned keep the initial conversation and every conversation sent before, so the
  images of the tool results are never removed. For every other provider, \<open>BEDROCK\<close> and
  \<open>VERTEX\<close> among them, which speak the Anthropic protocol too, the head of the loop body
  is the image filter with the caller's count, whenever that count is not 0.
\<close>

theorem anthropic_provider_never_trims_images:
  "history_policies ANTHROPIC only_n messages =
     (case inject_prompt_caching messages of
        Inl err \<Rightarrow> Inl err
      | Inr ms \<Rightarrow> Inr (ms, Some 0)) \<and>
   (\<forall>step k' tr' w'.
      iteration e ANTHROPIC sys only_n messages tr w = (step, k', tr', w') \<longrightarrow>
      (\<forall>m. step = Continue m \<or> step = Return m \<longrightarrow> k' = Some 0 \<and> keeps messages m)) \<and>
   (\<forall>outcome trace' w'.
      sampling_loop fuel e ANTHROPIC sys only_n messages [] w = Some (outcome, trace', w') \<longrightarrow>
      sorted_wrt keeps (messages # sent trace' @ returned outcome) \<and>
      (\<forall>m\<in>set (sent trace' @ returned outcome). prefix (images_of messages) (images_of m))) \<and>
   (provider \<noteq> ANTHROPIC \<and> int_truthy only_n \<longrightarrow>
      history_policies provider only_n messages =
        (case maybe_filter_to_n_most_recent_images messages only_n (the only_n) of
           Inl err \<Rightarrow> Inl err
         | Inr ms \<Rightarrow> Inr (ms, only_n)))"
proof (intro conjI allI impI)
  show "history_policies ANTHROPIC only_n messages =
     (case inject_prompt_caching messages of
        Inl err \<Rightarrow> Inl err
      | Inr ms \<Rightarrow> Inr (ms, Some 0))"
    by (rule history_policies_anthropic)
next
  fix step k' tr' w' m
  assume "iteration e ANTHROPIC sys only_n messages tr w = (step, k', tr', w')"
    and "step = Continue m \<or> step = Return m"
  then have r: "k' = Some 0 \<and> keeps messages m" by (rule anthropic_iteration_keeps)
  from r show "k' = Some 0" ..
  from r show "keeps messages m" ..
next
  fix outcome trace' w'
  assume run: "sampling_loop fuel e ANTHROPIC sys only_n messages [] w = Some (outcome, trace', w')"
  from anthropic_loop_chain [OF run, of "[]"]
  show chain: "sorted_wrt keeps (messages # sent trace' @ returned outcome)" by auto
  then have "\<forall>m\<in>set (sent trace' @ returned outcome). keeps messages m" by simp
  then show "\<forall>m\<in>set (sent trace' @ returned outcome). prefix (images_of messages) (images_of m)"
    using keeps_images by blast
next
  assume "provider \<noteq> ANTHROPIC \<and> int_truthy only_n"
  then show "history_policies provider only_n messages =
        (case maybe_filter_to_n_most_recent_images messages only_n (the only_n) of
           Inl err \<Rightarrow> Inl err
         | Inr ms \<Rightarrow> Inr (ms, only_n))"
    by (rule history_policies_other)
qed

text \<open>
  A run with an image count of 1 on a conversation with two images, in which the tool
  returns a third image: for \<open>ANTHROPIC\<close> the conversation that is returned has all
  three, for \<open>BEDROCK\<close>, where the filter is applied, only the newest one.
\<close>

lemma anthropic_run:
  "\<exists>final trace'.
     sampling_loop 2 (one_call_env (Inr screenshot)) ANTHROPIC ''sys'' (Some 1) two_images [] 0 =
       Some (Return final, trace', 2) \<and>
     images_of final = images_of two_images @ [RImage ''image/png'' ''3'']"
  by (simp add: numeral_2_eq_2 iteration_def history_policies_def inject_prompt_caching_def
      Let_def build_request_def one_call_env_def response_to_params_def
      make_api_tool_result_def screenshot_def two_images_def msg_def plain_def images_of_def
      tool_result_blocks_def)

lemma bedrock_run:
  "\<exists>final trace'.
     sampling_loop 2 (one_call_env (Inr screenshot)) BEDROCK ''sys'' (Some 1) two_images [] 0 =
       Some (Return final, trace', 2) \<and>
     images_of final = [RImage ''image/png'' ''3'']"
  by (simp add: numeral_2_eq_2 iteration_def history_policies_def
      maybe_filter_to_n_most_recent_images_def total_images_def
      Let_def build_request_def one_call_env_def response_to_params_def
      make_api_tool_result_def screenshot_def two_images_def msg_def plain_def images_of_def
      tool_result_blocks_def)

theorem anthropic_provider_never_trims_images_witness:
  "\<exists>final trace'.
     sampling_loop 2 (one_call_env (Inr screenshot)) ANTHROPIC ''sys'' (Some 1) two_images [] 0 =
       Some (Return final, trace', 2) \<and>
     images_of final = images_of two_images @ [RImage ''image/png'' ''3''] \<and>
     sorted_wrt keeps (two_images # sent trace' @ [final])"
proof -
  from anthropic_run obtain final trace' where
    run: "sampling_loop 2 (one_call_env (Inr screenshot)) ANTHROPIC ''sys'' (Some 1)
            two_images [] 0 = Some (Return final, trace', 2)"
    and images: "images_of final = images_of two_images @ [RImage ''image/png'' ''3'']"
    by blast
  from anthropic_provider_never_trims_images
    [of "Some 1" two_images "one_call_env (Inr screenshot)" "''sys''" "[]" 0 2] run
  have "sorted_wrt keeps (two_images # sent trace' @ returned (Return final))"
    by blast
  with run images show ?thesis by auto
qed

text \<open>
  The claim C9 fails for \<open>BEDROCK\<close>, an Anthropic-style provider: with an image count of
  1 and a conversation with two images in a tool result, the first iteration removes
  the older image before the request, and the conversation that the loop returns (here
  after a failed API call) has lost it.
\<close>

lemma policies_bedrock_two_images:
  "history_policies BEDROCK (Some 1) two_images =
     Inr ([msg User (Blocks [plain (ToolResult ''a''
             (ContentList [RText ''x'', RImage ''image/png'' ''2'']) False)])], Some 1)"
  by (simp add: history_policies_def maybe_filter_to_n_most_recent_images_def total_images_def
      tool_result_blocks_def Let_def two_images_def msg_def plain_def)

theorem bedrock_trims_images_counterexample:
  "sampling_loop (Suc 0) failing_env BEDROCK ''sys'' (Some 1) two_images [] 0 =
     Some (Return [msg User (Blocks [plain (ToolResult ''a''
                     (ContentList [RText ''x'', RImage ''image/png'' ''2'']) False)])],
           [BackendCall (AnthropicRequest
              [msg User (Blocks [plain (ToolResult ''a''
                 (ContentList [RText ''x'', RImage ''image/png'' ''2'']) False)])]),
            ApiResponseCallback (Some APIStatusError)],
           0) \<and>
   images_of two_images = [RImage ''image/png'' ''1'', RImage ''image/png'' ''2'']"
proof
  have "sampling_loop (Suc 0) failing_env BEDROCK ''sys'' (Some 1) two_images [] 0 =
     Some (Return [msg User (Blocks [plain (ToolResult ''a''
                     (ContentList [RText ''x'', RImage ''image/png'' ''2'']) False)])],
           [] @ [BackendCall (build_request failing_env BEDROCK ''sys''
              [msg User (Blocks [plain (ToolResult ''a''
                 (ContentList [RText ''x'', RImage ''image/png'' ''2'']) False)])]),
            ApiResponseCallback (Some APIStatusError)],
           0)"
    by (rule first_iteration_api_error [OF policies_bedrock_two_images])
       (simp add: build_request_def failing_env_def)
  then show "sampling_loop (Suc 0) failing_env BEDROCK ''sys'' (Some 1) two_images [] 0 =
     Some (Return [msg User (Blocks [plain (ToolResult ''a''
                     (ContentList [RText ''x'', RImage ''image/png'' ''2'']) False)])],
           [BackendCall (AnthropicRequest
              [msg User (Blocks [plain (ToolResult ''a''
                 (ContentList [RText ''x'', RImage ''image/png'' ''2'']) False)])]),
            ApiResponseCallback (Some APIStatusError)],
           0)"
    by (simp add: build_request_def)
  show "images_of two_images = [RImage ''image/png'' ''1'', RImage ''image/png'' ''2'']"
    by (simp add: images_of_def tool_result_blocks_def two_images_def msg_def plain_def)
qed

subsection \<open>The images of tool results in the requests to Nebius\<close>

lemma untranslated_block:
  "untranslated b \<Longrightarrow> block_images b = [] \<and> block_parts b = [] \<and> block_tools b = []"
  by (cases "body b") (simp_all add: block_images_def block_parts_def block_tools_def)

lemma untranslated_message:
  assumes "role m = User" and "content m = Blocks bs" and "\<forall>b\<in>set bs. untranslated b"
  shows "convert_message dumps [] m = []"
proof -
  have "concat (map block_images bs) = []" "concat (map block_parts bs) = []"
    "concat (map block_tools bs) = []"
    using assms(3) untranslated_block by (auto simp del: untranslated.simps)
  then have "user_messages [] bs = []" by (simp add: user_messages_eq)
  then show ?thesis using assms(1,2) by (simp add: convert_message_def)
qed

lemma wire_urls_append: "wire_urls (xs @ ys) = wire_urls xs @ wire_urls ys"
  by (simp add: wire_urls_def)

lemma wire_urls_concat: "wire_urls (concat xss) = concat (map wire_urls xss)"
  by (induction xss) (simp_all add: wire_urls_def)

lemma item_images_urls: "wire_urls (item_images i) = item_urls i"
  by (cases i) (simp_all add: wire_urls_def image_message_def)

lemma block_images_urls: "set (wire_urls (concat (map block_images bs))) \<subseteq> set (concat (map block_urls bs))"
proof (induction bs)
  case Nil
  then show ?case by (simp add: wire_urls_def)
next
  case (Cons b bs)
  have "set (wire_urls (block_images b)) \<subseteq> set (block_urls b)"
  proof (cases "body b")
    case (ToolResult tid c e)
    show ?thesis
    proof (cases c)
      case (ContentList items)
      have "wire_urls (concat (map item_images items)) = concat (map item_urls items)"
        by (induction items) (simp_all add: wire_urls_append item_images_urls, simp add: wire_urls_def)
      with ToolResult ContentList show ?thesis
        by (simp add: block_images_def tool_result_step_eq)
    qed (simp_all add: ToolResult block_images_def wire_urls_def)
  qed (simp_all add: block_images_def wire_urls_def)
  with Cons show ?case
    by (auto simp: wire_urls_append simp del: block_urls.simps)
qed

lemma block_tools_urls: "wire_urls (concat (map block_tools bs)) = []"
proof (induction bs)
  case Nil
  then show ?case by (simp add: wire_urls_def)
next
  case (Cons b bs)
  have "wire_urls (block_tools b) = []"
    by (cases "body b")
      (simp_all add: block_tools_def tool_result_step_eq wire_urls_def tool_message_def)
  with Cons show ?case by (simp add: wire_urls_append)
qed

lemma block_parts_urls:
  "set (concat (map part_urls (concat (map block_parts bs)))) \<subseteq> set (concat (map block_urls bs))"
proof (induction bs)
  case Nil
  then show ?case by simp
next
  case (Cons b bs)
  have "set (concat (map part_urls (block_parts b))) \<subseteq> set (block_urls b)"
    by (cases "body b") (simp_all add: block_parts_def tool_result_step_eq)
  with Cons show ?case by (auto simp del: block_urls.simps)
qed

lemma parts_content_urls:
  "set (wire_message_urls \<lparr>w_role = r, w_content = Some (parts_content ps),
          w_tool_calls = tc, w_tool_call_id = ti\<rparr>) \<subseteq> set (concat (map part_urls ps))"
  by (induction ps rule: parts_content.induct) simp_all

lemma user_messages_urls:
  "set (wire_urls (user_messages [] bs)) \<subseteq> set (concat (map block_urls bs))"
proof -
  let ?ps = "concat (map block_parts bs)"
  let ?m = "\<lparr>w_role = User, w_content = Some (parts_content ?ps),
             w_tool_calls = None, w_tool_call_id = None\<rparr>"
  have "set (wire_urls [?m]) \<subseteq> set (concat (map block_urls bs))"
    using parts_content_urls [of User ?ps None None] block_parts_urls [of bs]
    by (simp add: wire_urls_def del: wire_message_urls.simps block_urls.simps)
  moreover have "wire_urls ([] :: wire_message list) = []" by (simp add: wire_urls_def)
  ultimately show ?thesis
    using block_images_urls [of bs] block_tools_urls [of bs]
    by (simp add: user_messages_eq wire_urls_append del: block_urls.simps)
qed

lemma assistant_message_urls: "wire_urls [assistant_message dumps bs] = []"
  by (simp add: assistant_message_def wire_urls_def split_beta)

lemma convert_message_urls:
  "set (wire_urls (convert_message dumps [] m)) \<subseteq> set (concat (map block_urls (message_blocks m)))"
proof (cases "content m")
  case (Str s)
  then show ?thesis by (simp add: convert_message_def wire_urls_def)
next
  case (Blocks bs)
  then show ?thesis
    using user_messages_urls [of bs] assistant_message_urls [of dumps bs]
    by (simp add: convert_message_def del: block_urls.simps) (simp add: wire_urls_def)
qed

lemma convert_urls:
  "set (wire_urls (convert_anthropic_messages_to_openai dumps ms)) \<subseteq> set (conversation_urls ms)"
proof (induction ms)
  case Nil
  then show ?case by (simp add: convert_concat wire_urls_def)
next
  case (Cons m ms)
  have "conversation_urls (m # ms) =
      concat (map block_urls (message_blocks m)) @ conversation_urls ms"
    by (simp add: conversation_urls_def del: block_urls.simps message_blocks.simps)
  with Cons convert_message_urls [of dumps m] show ?case
    by (auto simp: convert_concat wire_urls_append
        simp del: block_urls.simps message_blocks.simps)
qed

lemma filter_items_subset: "set (snd (filter_items n cs)) \<subseteq> set cs"
  by (induction cs arbitrary: n) (auto simp: split_beta)

lemma filter_block_urls: "set (block_urls (snd (filter_block n b))) \<subseteq> set (block_urls b)"
proof (cases "body b")
  case (ToolResult tid c e)
  show ?thesis
  proof (cases c)
    case (ContentList items)
    with ToolResult show ?thesis
      using filter_items_subset [of n items] by (auto simp: split_beta)
  qed (simp_all add: ToolResult)
qed simp_all

lemma filter_blocks_urls:
  "set (concat (map block_urls (snd (filter_blocks n bs)))) \<subseteq> set (concat (map block_urls bs))"
proof (induction bs arbitrary: n)
  case Nil
  then show ?case by simp
next
  case (Cons b bs)
  show ?case
    using filter_block_urls [of n b] Cons.IH [of "fst (filter_block n b)"]
    by (simp add: split_beta del: filter_block.simps block_urls.simps) blast
qed

lemma conversation_urls_Cons:
  "conversation_urls (m # ms) = concat (map block_urls (message_blocks m)) @ conversation_urls ms"
  by (simp add: conversation_urls_def del: block_urls.simps message_blocks.simps)

lemma filter_messages_urls:
  "set (conversation_urls (snd (filter_messages n ms))) \<subseteq> set (conversation_urls ms)"
proof (induction ms arbitrary: n)
  case Nil
  then show ?case by simp
next
  case (Cons m ms)
  show ?case
  proof (cases "content m")
    case (Str s)
    then show ?thesis
      using Cons.IH [of n]
      by (simp add: split_beta conversation_urls_Cons del: block_urls.simps)
  next
    case (Blocks bs)
    then show ?thesis
      using Cons.IH [of "fst (filter_blocks n bs)"] filter_blocks_urls [of n bs]
      by (simp add: split_beta conversation_urls_Cons del: block_urls.simps) blast
  qed
qed

lemma nebius_policies_urls:
  assumes "history_policies NEBIUS k ms = Inr (ms1, k')"
  shows "set (conversation_urls ms1) \<subseteq> set (conversation_urls ms)"
proof (cases "int_truthy k")
  case True
  with assms have "maybe_filter_to_n_most_recent_images ms k (the k) = Inr ms1"
    by (auto simp: history_policies_def Let_def split: sum.splits)
  with True obtain n where "ms1 = snd (filter_messages n ms)"
    by (cases k) (auto simp: maybe_filter_to_n_most_recent_images_def Let_def
        split: if_splits)
  then show ?thesis by (simp add: filter_messages_urls)
next
  case False
  with assms show ?thesis by (simp add: history_policies_def Let_def)
qed

lemma requests_append: "requests (xs @ ys) = requests xs @ requests ys"
  by (simp add: requests_def)

lemma requests_call: "requests (BackendCall r # evs) = r # requests evs"
  by (simp add: requests_def)

lemma nebius_request_urls:
  "set (request_urls (build_request e NEBIUS sys ms1)) \<subseteq> set (conversation_urls ms1)"
proof -
  have "wire_urls (system_message sys # ws) = wire_urls ws" for ws
    by (simp add: wire_urls_def system_message_def)
  then show ?thesis
    using convert_urls [of "json_dumps e" ms1] by (simp add: build_request_def)
qed

lemma nebius_loop_urls:
  assumes "sampling_loop fuel e NEBIUS sys k ms tr w = Some (outcome, tr', w')"
    and "set (conversation_urls ms) \<subseteq> U"
    and "\<forall>r\<in>set (requests tr). set (request_urls r) \<subseteq> U"
  shows "\<forall>r\<in>set (requests tr'). set (request_urls r) \<subseteq> U"
  using assms
proof (induction fuel arbitrary: k ms tr w)
  case 0
  then show ?case by simp
next
  case (Suc fuel)
  obtain step k1 tr1 w1 where it: "iteration e NEBIUS sys k ms tr w = (step, k1, tr1, w1)"
    by (metis prod_cases4)
  from iteration_shape [OF it] consider
      (policy) err where "step = Raise err" and "tr1 = tr"
    | (sent) ms1 evs where "history_policies NEBIUS k ms = Inr (ms1, k1)"
        and "tr1 = tr @ BackendCall (build_request e NEBIUS sys ms1) # evs"
        and "requests evs = []"
        and "(\<exists>err. step = Raise err) \<or>
             (\<exists>ext. (step = Continue (ms1 @ ext) \<or> step = Return (ms1 @ ext)) \<and>
                conversation_urls ext = [])"
    by blast
  then show ?case
  proof cases
    case policy
    with Suc.prems(1) it have "tr' = tr" by simp
    with Suc.prems(3) show ?thesis by simp
  next
    case sent
    have u1: "set (conversation_urls ms1) \<subseteq> U"
      using nebius_policies_urls [OF sent(1)] Suc.prems(2) by blast
    then have "set (request_urls (build_request e NEBIUS sys ms1)) \<subseteq> U"
      using nebius_request_urls [of e sys ms1] by blast
    then have inv: "\<forall>r\<in>set (requests tr1). set (request_urls r) \<subseteq> U"
      using Suc.prems(3) sent(2,3) by (simp add: requests_append requests_call)
    from sent(4) show ?thesis
    proof (elim disjE exE conjE)
      fix err
      assume "step = Raise err"
      with Suc.prems(1) it have "tr' = tr1" by simp
      with inv show ?thesis by simp
    next
      fix ext
      assume "step = Return (ms1 @ ext)"
      with Suc.prems(1) it have "tr' = tr1" by simp
      with inv show ?thesis by simp
    next
      fix ext
      assume c: "step = Continue (ms1 @ ext)" and ext: "conversation_urls ext = []"
      with Suc.prems(1) it
      have run: "sampling_loop fuel e NEBIUS sys k1 (ms1 @ ext) tr1 w1 = Some (outcome, tr', w')"
        by simp
      have "set (conversation_urls (ms1 @ ext)) \<subseteq> U"
        using u1 ext by (simp add: conversation_urls_append)
      from Suc.IH [OF run this inv] show ?thesis .
    qed
  qed
qed

lemma nebius_tool_result_untranslated:
  "\<forall>b\<in>set (concat (map message_blocks (make_nebius_tool_result result tid tool_name))).
     untranslated b"
  by (simp add: make_nebius_tool_result_def msg_def plain_def)

text \<open>
  C10. A user message whose content is a list with no block of type \<open>text\<close>, \<open>image\<close> or
  \<open>tool_result\<close> adds nothing to the translation, wherever it stands in the
  conversation. The messages that \<open>_make_nebius_tool_result\<close> builds have such blocks
  only (the image is an \<open>image_url\<close> block). So in a run of the loop for \<open>NEBIUS\<close> every
  image URL of every request is an image that the initial conversation held in the
  Anthropic shape: the image of a tool result of the run is in no request at all, which
  is within the claim's at most one.
\<close>

theorem nebius_tool_result_image_is_never_sent:
  "(role m = User \<and> content m = Blocks bs \<and> (\<forall>b\<in>set bs. untranslated b) \<longrightarrow>
      convert_anthropic_messages_to_openai dumps (pre @ [m] @ post) =
      convert_anthropic_messages_to_openai dumps (pre @ post)) \<and>
   (\<forall>b\<in>set (concat (map message_blocks (make_nebius_tool_result result tid tool_name))).
      untranslated b) \<and>
   (sampling_loop fuel e NEBIUS sys only_n messages [] w = Some (outcome, trace', w') \<longrightarrow>
      (\<forall>r\<in>set (requests trace'). set (request_urls r) \<subseteq> set (conversation_urls messages)))"
proof (intro conjI impI)
  assume "role m = User \<and> content m = Blocks bs \<and> (\<forall>b\<in>set bs. untranslated b)"
  then have "convert_message dumps [] m = []"
    using untranslated_message [of m bs dumps] by blast
  then show "convert_anthropic_messages_to_openai dumps (pre @ [m] @ post) =
      convert_anthropic_messages_to_openai dumps (pre @ post)"
    by (simp add: convert_concat)
next
  show "\<forall>b\<in>set (concat (map message_blocks (make_nebius_tool_result result tid tool_name))).
      untranslated b"
    by (rule nebius_tool_result_untranslated)
next
  assume "sampling_loop fuel e NEBIUS sys only_n messages [] w = Some (outcome, trace', w')"
  then show "\<forall>r\<in>set (requests trace'). set (request_urls r) \<subseteq> set (conversation_urls messages)"
    by (rule nebius_loop_urls) (simp_all add: requests_def)
qed

text \<open>
  A run for \<open>NEBIUS\<close> in which the tool returns an image: the conversation that is
  returned holds the image message.
\<close>

lemma nebius_run:
  "\<exists>final trace'.
     sampling_loop 2 (one_call_env (Inr screenshot)) NEBIUS ''sys'' None [user_text ''hi''] [] 0 =
       Some (Return final, trace', 2) \<and>
     msg User (Blocks [plain (ImageUrl ''data:image/png;base64,3'')]) \<in> set final"
  by (simp add: numeral_2_eq_2 iteration_def history_policies_def Let_def build_request_def
      one_call_env_def convert_openai_response_to_anthropic_def
      make_nebius_tool_result_def maybe_prepend_system_tool_result_def screenshot_def
      user_text_def msg_def plain_def)

theorem nebius_tool_result_image_is_never_sent_witness:
  "convert_anthropic_messages_to_openai (json_dumps failing_env)
     ([user_text ''hi''] @ [msg User (Blocks [plain (ImageUrl ''data:image/png;base64,3'')])] @ []) =
   convert_anthropic_messages_to_openai (json_dumps failing_env) ([user_text ''hi''] @ []) \<and>
   (\<exists>final trace'.
      sampling_loop 2 (one_call_env (Inr screenshot)) NEBIUS ''sys'' None [user_text ''hi''] [] 0 =
        Some (Return final, trace', 2) \<and>
      msg User (Blocks [plain (ImageUrl ''data:image/png;base64,3'')]) \<in> set final \<and>
      concat (map request_urls (requests trace')) = [])"
proof -
  from nebius_run obtain final trace' where
    run: "sampling_loop 2 (one_call_env (Inr screenshot)) NEBIUS ''sys'' None
            [user_text ''hi''] [] 0 = Some (Return final, trace', 2)"
    and mem: "msg User (Blocks [plain (ImageUrl ''data:image/png;base64,3'')]) \<in> set final"
    by blast
  note inst = nebius_tool_result_image_is_never_sent
    [where m = "msg User (Blocks [plain (ImageUrl ''data:image/png;base64,3'')])"
       and bs = "[plain (ImageUrl ''data:image/png;base64,3'')]"
       and dumps = "json_dumps failing_env" and pre = "[user_text ''hi'']" and post = "[]"
       and fuel = 2 and e = "one_call_env (Inr screenshot)" and sys = "''sys''"
       and only_n = None and messages = "[user_text ''hi'']" and w = 0
       and outcome = "Return final" and trace' = trace' and w' = 2
       and result = screenshot and tid = "''t1''" and tool_name = "''computer''"]
  have none: "conversation_urls [user_text ''hi'' :: unit message] = []"
    by (simp add: conversation_urls_def user_text_def msg_def plain_def)
  from inst [THEN conjunct2, THEN conjunct2] run
  have "\<forall>r\<in>set (requests trace'). set (request_urls r) \<subseteq> {}"
    by (simp add: none)
  then have urls: "concat (map request_urls (requests trace')) = []"
    by simp
  from inst [THEN conjunct1]
  have "convert_anthropic_messages_to_openai (json_dumps failing_env)
     ([user_text ''hi''] @ [msg User (Blocks [plain (ImageUrl ''data:image/png;base64,3'')])] @ []) =
   convert_anthropic_messages_to_openai (json_dumps failing_env) ([user_text ''hi''] @ [])"
    by (simp add: msg_def plain_def)
  with run mem urls show ?thesis by blast
qed

end
